theory Spec2Isabelle
  imports Main "HOL-Library.Word"
begin

unbundle bit_operations_syntax

section \<open>The chain indexer of hac-node/agent\<close>

text \<open>
  A shallow embedding of \<^verbatim>\<open>hac-node/agent/client.go\<close> and
  \<^verbatim>\<open>hac-node/agent/model.go\<close>: the sqlite rows, the event handlers, the vote
  reconciliation \<^verbatim>\<open>handleVote\<close>, the account lookup \<^verbatim>\<open>queryAccount\<close> and the
  polling loop \<^verbatim>\<open>Start\<close>.

  Go's \<^verbatim>\<open>uint64\<close> and \<^verbatim>\<open>int64\<close> are both 64-bit words; the conversions
  \<^verbatim>\<open>uint64(x)\<close> and \<^verbatim>\<open>int64(x)\<close> keep the bits, so they are the identity here.
  An \<^verbatim>\<open>int64\<close> is compared with the signed order \<open><s\<close>, a \<^verbatim>\<open>uint64\<close> with the
  unsigned order \<open><\<close>.
\<close>

type_synonym u64 = "64 word"
type_synonym i64 = "64 word"
type_synonym byte = "8 word"

subsection \<open>sqlite models (model.go)\<close>

record Height =
  Id :: u64
  Height :: u64

text \<open>
  \<^verbatim>\<open>model.go\<close> declares \<^verbatim>\<open>Validator\<close> with \<^verbatim>\<open>Id\<close>, \<^verbatim>\<open>Address\<close> and
  \<^verbatim>\<open>Character\<close>; the composite literal in \<^verbatim>\<open>handleEventGrant\<close> also names
  \<^verbatim>\<open>Stake\<close> and \<^verbatim>\<open>AgentUrl\<close>. The record carries all five columns.
\<close>

record Validator =
  Id :: u64
  Address :: string
  Character :: string
  Stake :: u64
  AgentUrl :: string

record Proposal =
  Id :: u64
  ProposerIndex :: u64
  ProposerAddress :: string
  Data :: "byte list"
  NewHeight :: u64
  SettleHeight :: u64
  Status :: u64

record Grant =
  Id :: u64
  Address :: string
  Height :: u64
  Stake :: u64
  Proposer :: u64
  ProposerAddress :: string
  Grant :: bool

record ProposalVote =
  Id :: u64
  Proposal :: u64
  VoterIndex :: u64
  VoterAddress :: string
  Height :: u64
  Vote :: u64

record GrantVote =
  Id :: u64
  ProposerIndex :: u64
  ProposerAddress :: string
  AccountIndex :: u64
  AccountAddr :: string
  VoterIndex :: u64
  VoterAddress :: string
  Height :: u64
  Vote :: u64

record Discussion =
  Id :: u64
  Proposal :: u64
  SpeakerIndex :: u64
  SpeakerAddress :: string
  Data :: "byte list"
  Height :: u64

subsection \<open>The record store\<close>

text \<open>
  The sqlite database behind \<^verbatim>\<open>c.db\<close>: one table per model, each a list of rows in
  insertion order.
\<close>

record store =
  heights :: "Height list"
  validators :: "Validator list"
  proposals :: "Proposal list"
  grants :: "Grant list"
  proposal_votes :: "ProposalVote list"
  grant_votes :: "GrantVote list"
  discussions :: "Discussion list"

text \<open>
  The gorm calls of the source, on one table, parameterised by the primary-key column.
  \<^item> \<^verbatim>\<open>First\<close> orders by primary key and returns the first matching row.
  \<^item> \<^verbatim>\<open>Save\<close> of a row whose primary key is not blank updates the row with that key
    (every column) or inserts it when there is none; \<^verbatim>\<open>Save\<close> and \<^verbatim>\<open>Create\<close> of a
    row whose primary key is blank (zero) insert it under a fresh key, one more than the
    largest key of the table.
\<close>

definition next_id :: "('r \<Rightarrow> u64) \<Rightarrow> 'r list \<Rightarrow> u64" where
  "next_id key tbl = fold max (map key tbl) 0 + 1"

definition first_where :: "('r \<Rightarrow> u64) \<Rightarrow> ('r \<Rightarrow> bool) \<Rightarrow> 'r list \<Rightarrow> 'r option" where
  "first_where key P tbl =
     (case filter P tbl of
        [] \<Rightarrow> None
      | r # rs \<Rightarrow> Some (fold (\<lambda>x m. if key x < key m then x else m) rs r))"

definition create_row :: "('r \<Rightarrow> u64) \<Rightarrow> (u64 \<Rightarrow> 'r \<Rightarrow> 'r) \<Rightarrow> 'r \<Rightarrow> 'r list \<Rightarrow> 'r list" where
  "create_row key set_key r tbl = tbl @ [set_key (next_id key tbl) r]"

definition save_row :: "('r \<Rightarrow> u64) \<Rightarrow> (u64 \<Rightarrow> 'r \<Rightarrow> 'r) \<Rightarrow> 'r \<Rightarrow> 'r list \<Rightarrow> 'r list" where
  "save_row key set_key r tbl =
     (if key r = 0 then create_row key set_key r tbl
      else if \<exists>x \<in> set tbl. key x = key r
           then map (\<lambda>x. if key x = key r then r else x) tbl
           else tbl @ [r])"

subsection \<open>Events, commits and accounts (types of the imported packages)\<close>

record abci_event =
  Type :: string
  Attributes :: "(string \<times> string) list"

record EventGrant =
  Validator :: u64
  Address :: string
  Amount :: u64
  ProposerIndex :: u64
  ProposerAddress :: string
  Grant :: bool
  AgentUrl :: string

record EventDiscussion =
  Proposal :: u64
  Speaker :: u64
  SpeakerAddress :: string
  Data :: "byte list"

text \<open>\<^verbatim>\<open>State\<close> is the event's state as \<^verbatim>\<open>uint64(ev.State)\<close> reads it.\<close>

record EventSettleProposal =
  Proposal :: u64
  State :: u64

record EventProposal =
  ProposalIndex :: u64
  Proposer :: u64
  ProposerAddress :: string
  Data :: "byte list"
  Status :: u64

text \<open>
  A commit signature: the validator's address bytes and the vote code as
  \<^verbatim>\<open>uint64(v.VoteCode)\<close> reads it.
\<close>

record CommitSig =
  ValidatorAddress :: "byte list"
  VoteCode :: u64

record ResultCommit =
  Height :: i64
  Signatures :: "CommitSig list"

record ResponseQuery =
  Code :: "32 word"
  Value :: "byte list"

text \<open>
  \<^verbatim>\<open>state.Account\<close>: its index, and the string its method \<^verbatim>\<open>Address()\<close> returns.
\<close>

record Account =
  Index :: u64
  Address :: string

subsection \<open>The world outside the indexer\<close>

text \<open>
  Everything the indexer calls and does not define. The decoders, the JSON reader and the
  event type tags of the imported packages are pure. The chain RPC service and the faults
  of the record store are oracles indexed by a clock that counts the external calls made
  so far, so that the same request may be answered differently at different times.
  An RPC call that returns an error returns a nil result: the answer \<open>None\<close>.
\<close>

record world =
  EventGrantType :: string
  EventDiscussionType :: string
  EventSettleProposalType :: string
  EventProposalType :: string
  ParseEventGrant :: "abci_event \<Rightarrow> EventGrant option"
  DecodeEventDiscussion :: "abci_event \<Rightarrow> EventDiscussion option"
  DecodeEventSettleProposal :: "abci_event \<Rightarrow> EventSettleProposal option"
  DecodeEventProposal :: "abci_event \<Rightarrow> EventProposal option"
  UnmarshalJSON :: "byte list \<Rightarrow> Account option"
  rpc_New :: "nat \<Rightarrow> bool"
  rpc_IsRunning :: "nat \<Rightarrow> bool"
  rpc_Status :: "nat \<Rightarrow> i64 option"
  rpc_BlockResults :: "nat \<Rightarrow> i64 \<Rightarrow> abci_event list list option"
  rpc_Commit :: "nat \<Rightarrow> i64 \<Rightarrow> ResultCommit option"
  rpc_ABCIQuery :: "nat \<Rightarrow> string \<Rightarrow> byte list \<Rightarrow> ResponseQuery option"
  store_fault :: "nat \<Rightarrow> bool"

subsection \<open>The indexer's state\<close>

text \<open>
  \<^verbatim>\<open>ChainIndexer\<close>: the fields the code reads and writes. \<open>cli\<close> is the pointer to the
  RPC client, \<open>None\<close> when nil. \<open>clock\<close> is not a field of the source: it counts the
  external calls made so far and selects the world's answers.
\<close>

datatype http = HTTP string

record ChainIndexer =
  Url :: string
  Height :: i64
  db :: store
  cli :: "http option"
  clock :: nat

datatype error =
  ReconnectFail | StoreError | HexError | ResponseCodeError | UnmarshalError
  | SigAddressNotExist string

text \<open>
  The result of a call that may return an error or dereference a nil pointer
  (a Go panic, which nothing in the package recovers).
\<close>

datatype 'a result = Panic | Err error | Ok 'a

datatype 'a query = QueryError | NotFound | Found 'a

definition tick :: "ChainIndexer \<Rightarrow> ChainIndexer" where
  "tick c = c\<lparr>clock := clock c + 1\<rparr>"

text \<open>A gorm write: it fails when the world says so and then changes nothing.\<close>

definition store_write :: "world \<Rightarrow> (store \<Rightarrow> store) \<Rightarrow> ChainIndexer \<Rightarrow> bool \<times> ChainIndexer" where
  "store_write w f c =
     (if store_fault w (clock c) then (False, tick c)
      else (True, tick (c\<lparr>db := f (db c)\<rparr>)))"

text \<open>
  A gorm \<^verbatim>\<open>First\<close>: an error other than \<^verbatim>\<open>ErrRecordNotFound\<close> when the world says
  so, \<^verbatim>\<open>ErrRecordNotFound\<close> when no row matches.
\<close>

definition store_first :: "world \<Rightarrow> (store \<Rightarrow> 'r option) \<Rightarrow> ChainIndexer \<Rightarrow> 'r query \<times> ChainIndexer" where
  "store_first w f c =
     (if store_fault w (clock c) then (QueryError, tick c)
      else (case f (db c) of None \<Rightarrow> (NotFound, tick c) | Some r \<Rightarrow> (Found r, tick c)))"

text \<open>
  The block that follows every failed RPC call:
  \<^verbatim>\<open>if !c.cli.IsRunning() { c.cli.Stop(); c.cli, err = comethttp.New(...); if err != nil {...} }\<close>.
  The result is \<open>True\<close> when the reconnection was attempted and failed, which leaves
  \<open>c.cli\<close> nil.
\<close>

definition reconnect :: "world \<Rightarrow> ChainIndexer \<Rightarrow> bool \<times> ChainIndexer" where
  "reconnect w c =
     (if rpc_IsRunning w (clock c) then (False, tick c)
      else if rpc_New w (clock c + 1) then (False, tick (tick c)\<lparr>cli := Some (HTTP (Url c))\<rparr>)
      else (True, tick (tick c)\<lparr>cli := None\<rparr>))"

subsection \<open>Hexadecimal strings\<close>

text \<open>
  \<^verbatim>\<open>encoding/hex\<close>: \<^verbatim>\<open>DecodeString\<close> returns the bytes decoded before the first
  invalid character or the odd last character, and whether it reached the end.
  \<^verbatim>\<open>HexBytes.String()\<close> of the chain's address type is the upper-case encoding;
  \<^verbatim>\<open>fmt.Sprintf("%x", n)\<close> the lower-case digits of \<open>n\<close> without leading zeros.
\<close>

definition fromHexChar :: "char \<Rightarrow> byte option" where
  "fromHexChar ch =
     (let n = (of_char ch :: nat) in
      if 48 \<le> n \<and> n \<le> 57 then Some (of_nat (n - 48))
      else if 97 \<le> n \<and> n \<le> 102 then Some (of_nat (n - 87))
      else if 65 \<le> n \<and> n \<le> 70 then Some (of_nat (n - 55))
      else None)"

fun DecodeString :: "string \<Rightarrow> byte list \<times> bool" where
  "DecodeString [] = ([], True)"
| "DecodeString [p] = ([], False)"
| "DecodeString (p # q # rest) =
     (case fromHexChar p of
        None \<Rightarrow> ([], False)
      | Some a \<Rightarrow>
          (case fromHexChar q of
             None \<Rightarrow> ([], False)
           | Some b \<Rightarrow>
               (case DecodeString rest of (bs, ok) \<Rightarrow> ((push_bit 4 a OR b) # bs, ok))))"

definition hextable :: string where
  "hextable = ''0123456789abcdef''"

definition upper_hextable :: string where
  "upper_hextable = ''0123456789ABCDEF''"

fun HexBytes_String :: "byte list \<Rightarrow> string" where
  "HexBytes_String [] = []"
| "HexBytes_String (b # bs) =
     upper_hextable ! unat (drop_bit 4 b) # upper_hextable ! unat (b AND 15) # HexBytes_String bs"

fun Sprintf_x :: "nat \<Rightarrow> string" where
  "Sprintf_x n = (if n < 16 then [hextable ! n] else Sprintf_x (n div 16) @ [hextable ! (n mod 16)])"

subsection \<open>Event handlers\<close>

text \<open>
  A handler returns nothing: a decoding failure or a failed write is logged and the
  handler goes on or returns. The calls to the advisory agent (\<^verbatim>\<open>ElizaCli\<close>) in the
  discussion and proposal handlers only log their outcome and are left out.
\<close>

type_synonym eventHandler = "world \<Rightarrow> abci_event \<Rightarrow> i64 \<Rightarrow> ChainIndexer \<Rightarrow> ChainIndexer"

definition Save_grant :: "Grant \<Rightarrow> store \<Rightarrow> store" where
  "Save_grant r s = s\<lparr>grants := save_row Grant.Id (\<lambda>n x. x\<lparr>Grant.Id := n\<rparr>) r (grants s)\<rparr>"

definition Save_validator :: "Validator \<Rightarrow> store \<Rightarrow> store" where
  "Save_validator r s =
     s\<lparr>validators := save_row Validator.Id (\<lambda>n x. x\<lparr>Validator.Id := n\<rparr>) r (validators s)\<rparr>"

definition Save_discussion :: "Discussion \<Rightarrow> store \<Rightarrow> store" where
  "Save_discussion r s =
     s\<lparr>discussions := save_row Discussion.Id (\<lambda>n x. x\<lparr>Discussion.Id := n\<rparr>) r (discussions s)\<rparr>"

definition Save_proposal :: "Proposal \<Rightarrow> store \<Rightarrow> store" where
  "Save_proposal r s =
     s\<lparr>proposals := save_row Proposal.Id (\<lambda>n x. x\<lparr>Proposal.Id := n\<rparr>) r (proposals s)\<rparr>"

definition Save_height :: "Height \<Rightarrow> store \<Rightarrow> store" where
  "Save_height r s = s\<lparr>heights := save_row Height.Id (\<lambda>n x. x\<lparr>Height.Id := n\<rparr>) r (heights s)\<rparr>"

definition Create_proposal_vote :: "ProposalVote \<Rightarrow> store \<Rightarrow> store" where
  "Create_proposal_vote r s =
     s\<lparr>proposal_votes :=
         create_row ProposalVote.Id (\<lambda>n x. x\<lparr>ProposalVote.Id := n\<rparr>) r (proposal_votes s)\<rparr>"

definition Create_grant_vote :: "GrantVote \<Rightarrow> store \<Rightarrow> store" where
  "Create_grant_vote r s =
     s\<lparr>grant_votes := create_row GrantVote.Id (\<lambda>n x. x\<lparr>GrantVote.Id := n\<rparr>) r (grant_votes s)\<rparr>"

definition handleEventGrant :: eventHandler where
  "handleEventGrant w event height c =
     (case ParseEventGrant w event of
        None \<Rightarrow> c
      | Some ev \<Rightarrow>
          (let grant = \<lparr>Grant.Id = EventGrant.Validator ev,
                        Grant.Address = EventGrant.Address ev,
                        Grant.Height = height,
                        Grant.Stake = EventGrant.Amount ev,
                        Grant.Proposer = EventGrant.ProposerIndex ev,
                        Grant.ProposerAddress = EventGrant.ProposerAddress ev,
                        Grant.Grant = EventGrant.Grant ev\<rparr>;
               c1 = snd (store_write w (Save_grant grant) c);
               val = \<lparr>Validator.Id = EventGrant.Validator ev,
                      Validator.Address = EventGrant.Address ev,
                      Validator.Character = [],
                      Validator.Stake = EventGrant.Amount ev,
                      Validator.AgentUrl = EventGrant.AgentUrl ev\<rparr>
           in snd (store_write w (Save_validator val) c1)))"

definition handleEventDiscussion :: eventHandler where
  "handleEventDiscussion w event height c =
     (case DecodeEventDiscussion w event of
        None \<Rightarrow> c
      | Some ev \<Rightarrow>
          (let discusstion = \<lparr>Discussion.Id = 0,
                              Discussion.Proposal = EventDiscussion.Proposal ev,
                              Discussion.SpeakerIndex = EventDiscussion.Speaker ev,
                              Discussion.SpeakerAddress = EventDiscussion.SpeakerAddress ev,
                              Discussion.Data = EventDiscussion.Data ev,
                              Discussion.Height = height\<rparr>
           in snd (store_write w (Save_discussion discusstion) c)))"

definition First_proposal_by_id :: "u64 \<Rightarrow> store \<Rightarrow> Proposal option" where
  "First_proposal_by_id n s = first_where Proposal.Id (\<lambda>p. Proposal.Id p = n) (proposals s)"

definition handleEventSettleProposal :: eventHandler where
  "handleEventSettleProposal w event height c =
     (case DecodeEventSettleProposal w event of
        None \<Rightarrow> c
      | Some ev \<Rightarrow>
          (case store_first w (First_proposal_by_id (EventSettleProposal.Proposal ev)) c of
             (Found proposal, c1) \<Rightarrow>
               snd (store_write w
                      (Save_proposal (proposal\<lparr>Proposal.Status := EventSettleProposal.State ev,
                                               Proposal.SettleHeight := height\<rparr>)) c1)
           | (_, c1) \<Rightarrow> c1))"

definition handleEventProposal :: eventHandler where
  "handleEventProposal w event height c =
     (case DecodeEventProposal w event of
        None \<Rightarrow> c
      | Some ev \<Rightarrow>
          (let proposal = \<lparr>Proposal.Id = EventProposal.ProposalIndex ev,
                           Proposal.ProposerIndex = EventProposal.Proposer ev,
                           Proposal.ProposerAddress = EventProposal.ProposerAddress ev,
                           Proposal.Data = EventProposal.Data ev,
                           Proposal.NewHeight = height,
                           Proposal.SettleHeight = 0,
                           Proposal.Status = EventProposal.Status ev\<rparr>
           in snd (store_write w (Save_proposal proposal) c)))"

text \<open>
  The map \<^verbatim>\<open>c.eventHandlers\<close> that \<^verbatim>\<open>NewChainIndexer\<close> builds, in the order of its
  literal. The keys are constants, which Go requires to be distinct in a map literal.
\<close>

definition eventHandlers :: "world \<Rightarrow> (string \<times> eventHandler) list" where
  "eventHandlers w =
     [(EventGrantType w, handleEventGrant),
      (EventDiscussionType w, handleEventDiscussion),
      (EventSettleProposalType w, handleEventSettleProposal),
      (EventProposalType w, handleEventProposal)]"

definition handleEvent :: eventHandler where
  "handleEvent w event height c =
     (case map_of (eventHandlers w) (abci_event.Type event) of
        Some h \<Rightarrow> h w event height c
      | None \<Rightarrow> c)"

subsection \<open>Account lookup\<close>

text \<open>
  \<^verbatim>\<open>queryAccount\<close>. The query key is the decoded address, or the bytes of the index
  when the address is empty. When \<^verbatim>\<open>ABCIQuery\<close> fails and the client is running or
  the reconnection succeeds, the code goes on to \<^verbatim>\<open>res.Response.Code\<close> with a nil
  \<^verbatim>\<open>res\<close>. A result \<open>Ok None\<close> would be the nil account with a nil error.
\<close>

definition query_key :: "u64 \<Rightarrow> string \<Rightarrow> error + byte list" where
  "query_key index address =
     (if length address > 0
      then (case DecodeString address of
              (dat, True) \<Rightarrow> Inr dat
            | (dat, False) \<Rightarrow> Inl HexError)
      else (let s = ''0'' @ Sprintf_x (unat index);
                s = (if (length s) mod 2 = 1 then tl s else s)
            in Inr (fst (DecodeString s))))"

definition queryAccount ::
  "world \<Rightarrow> u64 \<Rightarrow> string \<Rightarrow> ChainIndexer \<Rightarrow> Account option result \<times> ChainIndexer" where
  "queryAccount w index address c =
     (case query_key index address of
        Inl e \<Rightarrow> (Err e, c)
      | Inr dat \<Rightarrow>
          (case cli c of
             None \<Rightarrow> (Panic, c)
           | Some _ \<Rightarrow>
               (case rpc_ABCIQuery w (clock c) ''/accounts/'' dat of
                  None \<Rightarrow>
                    (case reconnect w (tick c) of
                       (True, c1) \<Rightarrow> (Err ReconnectFail, c1)
                     | (False, c1) \<Rightarrow> (Panic, c1))
                | Some res \<Rightarrow>
                    if ResponseQuery.Code res \<noteq> 0 then (Err ResponseCodeError, tick c)
                    else (case UnmarshalJSON w (ResponseQuery.Value res) of
                            None \<Rightarrow> (Err UnmarshalError, tick c)
                          | Some act \<Rightarrow> (Ok (Some act), tick c)))))"

subsection \<open>Vote reconciliation\<close>

definition First_proposal_vote :: "i64 \<Rightarrow> u64 \<Rightarrow> store \<Rightarrow> ProposalVote option" where
  "First_proposal_vote voteHeight voter s =
     first_where ProposalVote.Id
       (\<lambda>r. ProposalVote.Height r = voteHeight \<and> ProposalVote.VoterIndex r = voter)
       (proposal_votes s)"

definition First_grant_vote :: "i64 \<Rightarrow> u64 \<Rightarrow> store \<Rightarrow> GrantVote option" where
  "First_grant_vote voteHeight voter s =
     first_where GrantVote.Id
       (\<lambda>r. GrantVote.Height r = voteHeight \<and> GrantVote.VoterIndex r = voter)
       (grant_votes s)"

text \<open>
  \<^verbatim>\<open>for _, v := range res.Commit.Signatures { ... }; return nil\<close>: the body runs on
  each signature in order; a \<^verbatim>\<open>return err\<close> in the body (or a panic) ends the loop.
\<close>

fun for_Signatures ::
  "(CommitSig \<Rightarrow> ChainIndexer \<Rightarrow> unit result \<times> ChainIndexer) \<Rightarrow> CommitSig list \<Rightarrow>
   ChainIndexer \<Rightarrow> unit result \<times> ChainIndexer" where
  "for_Signatures body [] c = (Ok (), c)"
| "for_Signatures body (v # vs) c =
     (case body v c of
        (Ok u, c1) \<Rightarrow> for_Signatures body vs c1
      | (r, c1) \<Rightarrow> (r, c1))"

text \<open>
  The body of the loop that inserts \<^verbatim>\<open>ProposalVote\<close> rows. The source has the loop
  twice, for the proposal created and for the proposal settled at the height; the two
  copies differ in the proposal only.
\<close>

definition proposal_vote_body ::
  "world \<Rightarrow> i64 \<Rightarrow> u64 \<Rightarrow> CommitSig \<Rightarrow> ChainIndexer \<Rightarrow> unit result \<times> ChainIndexer" where
  "proposal_vote_body w voteHeight proposal v c =
     (case queryAccount w 0 (HexBytes_String (ValidatorAddress v)) c of
        (Panic, c1) \<Rightarrow> (Panic, c1)
      | (Err e, c1) \<Rightarrow> (Err e, c1)
      | (Ok None, c1) \<Rightarrow> (Err (SigAddressNotExist (HexBytes_String (ValidatorAddress v))), c1)
      | (Ok (Some acc), c1) \<Rightarrow>
          (case store_first w (First_proposal_vote voteHeight (Account.Index acc)) c1 of
             (QueryError, c2) \<Rightarrow> (Err StoreError, c2)
           | (Found r, c2) \<Rightarrow> (Ok (), c2)
           | (NotFound, c2) \<Rightarrow>
               (let vote = \<lparr>ProposalVote.Id = 0,
                             ProposalVote.Proposal = proposal,
                             ProposalVote.VoterIndex = Account.Index acc,
                             ProposalVote.VoterAddress = HexBytes_String (ValidatorAddress v),
                             ProposalVote.Height = voteHeight,
                             ProposalVote.Vote = VoteCode v\<rparr>
                in case store_write w (Create_proposal_vote vote) c2 of
                     (False, c3) \<Rightarrow> (Err StoreError, c3)
                   | (True, c3) \<Rightarrow> (Ok (), c3))))"

definition grant_vote_body ::
  "world \<Rightarrow> i64 \<Rightarrow> Grant \<Rightarrow> CommitSig \<Rightarrow> ChainIndexer \<Rightarrow> unit result \<times> ChainIndexer" where
  "grant_vote_body w voteHeight grant v c =
     (case queryAccount w 0 (HexBytes_String (ValidatorAddress v)) c of
        (Panic, c1) \<Rightarrow> (Panic, c1)
      | (Err e, c1) \<Rightarrow> (Err e, c1)
      | (Ok None, c1) \<Rightarrow> (Err (SigAddressNotExist (HexBytes_String (ValidatorAddress v))), c1)
      | (Ok (Some acc), c1) \<Rightarrow>
          (case store_first w (First_grant_vote voteHeight (Account.Index acc)) c1 of
             (QueryError, c2) \<Rightarrow> (Err StoreError, c2)
           | (Found r, c2) \<Rightarrow> (Ok (), c2)
           | (NotFound, c2) \<Rightarrow>
               (let vote = \<lparr>GrantVote.Id = 0,
                             GrantVote.ProposerIndex = Grant.Proposer grant,
                             GrantVote.ProposerAddress = Grant.ProposerAddress grant,
                             GrantVote.AccountIndex = Grant.Id grant,
                             GrantVote.AccountAddr = Grant.Address grant,
                             GrantVote.VoterIndex = Account.Index acc,
                             GrantVote.VoterAddress = Account.Address acc,
                             GrantVote.Height = voteHeight,
                             GrantVote.Vote = VoteCode v\<rparr>
                in case store_write w (Create_grant_vote vote) c2 of
                     (False, c3) \<Rightarrow> (Err StoreError, c3)
                   | (True, c3) \<Rightarrow> (Ok (), c3))))"

text \<open>The zero values \<^verbatim>\<open>Proposal{}\<close> and \<^verbatim>\<open>Grant{}\<close> that a failed lookup leaves.\<close>

definition Proposal_zero :: Proposal where
  "Proposal_zero = \<lparr>Proposal.Id = 0, Proposal.ProposerIndex = 0, Proposal.ProposerAddress = [],
     Proposal.Data = [], Proposal.NewHeight = 0, Proposal.SettleHeight = 0, Proposal.Status = 0\<rparr>"

definition Grant_zero :: Grant where
  "Grant_zero = \<lparr>Grant.Id = 0, Grant.Address = [], Grant.Height = 0, Grant.Stake = 0,
     Grant.Proposer = 0, Grant.ProposerAddress = [], Grant.Grant = False\<rparr>"

definition First_new_proposal :: "i64 \<Rightarrow> store \<Rightarrow> Proposal option" where
  "First_new_proposal voteHeight s =
     first_where Proposal.Id (\<lambda>p. Proposal.NewHeight p = voteHeight) (proposals s)"

definition First_settle_proposal :: "i64 \<Rightarrow> store \<Rightarrow> Proposal option" where
  "First_settle_proposal voteHeight s =
     first_where Proposal.Id (\<lambda>p. Proposal.SettleHeight p = voteHeight) (proposals s)"

definition First_grant :: "i64 \<Rightarrow> store \<Rightarrow> Grant option" where
  "First_grant voteHeight s =
     first_where Grant.Id (\<lambda>g. Grant.Height g = voteHeight) (grants s)"

text \<open>\<^verbatim>\<open>handleVote\<close> after the commit has been fetched: the three lookups in their order.\<close>

definition reconcile :: "world \<Rightarrow> ResultCommit \<Rightarrow> ChainIndexer \<Rightarrow> unit result \<times> ChainIndexer" where
  "reconcile w res c =
     (let voteHeight = ResultCommit.Height res in
      case store_first w (First_new_proposal voteHeight) c of
        (QueryError, c1) \<Rightarrow> (Err StoreError, c1)
      | (q1, c1) \<Rightarrow>
          (let newProposel = (case q1 of Found p \<Rightarrow> p | _ \<Rightarrow> Proposal_zero) in
           if Proposal.Id newProposel \<noteq> 0
           then for_Signatures (proposal_vote_body w voteHeight (Proposal.Id newProposel))
                  (Signatures res) c1
           else
             (case store_first w (First_settle_proposal voteHeight) c1 of
                (QueryError, c2) \<Rightarrow> (Err StoreError, c2)
              | (q2, c2) \<Rightarrow>
                  (let settleProposel = (case q2 of Found p \<Rightarrow> p | _ \<Rightarrow> Proposal_zero) in
                   if Proposal.Id settleProposel \<noteq> 0
                   then for_Signatures (proposal_vote_body w voteHeight (Proposal.Id settleProposel))
                          (Signatures res) c2
                   else
                     (case store_first w (First_grant voteHeight) c2 of
                        (QueryError, c3) \<Rightarrow> (Err StoreError, c3)
                      | (q3, c3) \<Rightarrow>
                          (let grant = (case q3 of Found g \<Rightarrow> g | _ \<Rightarrow> Grant_zero) in
                           if Grant.Id grant \<noteq> 0
                           then for_Signatures (grant_vote_body w voteHeight grant) (Signatures res) c3
                           else (Ok (), c3)))))))"

text \<open>
  \<^verbatim>\<open>handleVote\<close>. A method call on a nil \<^verbatim>\<open>c.cli\<close> panics. When \<^verbatim>\<open>Commit\<close> fails
  and the client is running or the reconnection succeeds, the code goes on to
  \<^verbatim>\<open>res.Height\<close> with a nil \<^verbatim>\<open>res\<close>.
\<close>

definition handleVote :: "world \<Rightarrow> i64 \<Rightarrow> ChainIndexer \<Rightarrow> unit result \<times> ChainIndexer" where
  "handleVote w height c =
     (case cli c of
        None \<Rightarrow> (Panic, c)
      | Some _ \<Rightarrow>
          (case rpc_Commit w (clock c) height of
             None \<Rightarrow>
               (case reconnect w (tick c) of
                  (True, c1) \<Rightarrow> (Err ReconnectFail, c1)
                | (False, c1) \<Rightarrow> (Panic, c1))
           | Some res \<Rightarrow> reconcile w res (tick c)))"

subsection \<open>Construction\<close>

text \<open>
  \<^verbatim>\<open>NewChainIndexer\<close> on the database \<open>disk\<close> found at \<^verbatim>\<open>dbPath\<close>: it connects, opens
  and migrates the database (two store calls), and reads the \<^verbatim>\<open>Height\<close> row 1, which
  stays \<^verbatim>\<open>Height{Id: 1}\<close> when there is none.
\<close>

definition First_height :: "store \<Rightarrow> Height option" where
  "First_height s = first_where Height.Id (\<lambda>r. Height.Id r = 1) (heights s)"

definition NewChainIndexer :: "world \<Rightarrow> store \<Rightarrow> string \<Rightarrow> ChainIndexer result" where
  "NewChainIndexer w disk chainUrl =
     (if \<not> rpc_New w 0 then Err ReconnectFail
      else if store_fault w 1 then Err StoreError
      else if store_fault w 2 then Err StoreError
      else
        (let c0 = \<lparr>Url = chainUrl, ChainIndexer.Height = 0, db = disk,
                   cli = Some (HTTP chainUrl), clock = 3\<rparr>
         in case store_first w First_height c0 of
              (QueryError, c1) \<Rightarrow> Err StoreError
            | (q, c1) \<Rightarrow>
                (let h = (case q of Found r \<Rightarrow> r | _ \<Rightarrow> \<lparr>Height.Id = 1, Height.Height = 0\<rparr>)
                 in Ok (c1\<lparr>ChainIndexer.Height := Height.Height h + 1\<rparr>))))"

subsection \<open>The polling loop\<close>

text \<open>
  One pass of the body of the inner loop of \<^verbatim>\<open>Start\<close>, entered when
  \<^verbatim>\<open>b.SyncInfo.LatestBlockHeight > c.Height\<close>. Every \<^verbatim>\<open>continue\<close> of the body
  belongs to the inner loop: it goes back to the loop's condition with \<^verbatim>\<open>c.Height\<close>
  as it was (\<open>Retried\<close>). When \<^verbatim>\<open>BlockResults\<close> fails and the client is running or the
  reconnection succeeds, the code goes on to \<^verbatim>\<open>events.TxsResults\<close> with a nil
  \<^verbatim>\<open>events\<close>.
\<close>

datatype iteration = Crashed | Retried | Advanced

definition dispatch :: "world \<Rightarrow> abci_event list list \<Rightarrow> ChainIndexer \<Rightarrow> ChainIndexer" where
  "dispatch w TxsResults c =
     fold (\<lambda>res c1. fold (\<lambda>event c2. handleEvent w event (ChainIndexer.Height c2) c2) res c1)
       TxsResults c"

definition Start_height :: "world \<Rightarrow> ChainIndexer \<Rightarrow> iteration \<times> ChainIndexer" where
  "Start_height w c =
     (case cli c of
        None \<Rightarrow> (Crashed, c)
      | Some _ \<Rightarrow>
          (case rpc_BlockResults w (clock c) (ChainIndexer.Height c) of
             None \<Rightarrow>
               (case reconnect w (tick c) of
                  (True, c1) \<Rightarrow> (Retried, c1)
                | (False, c1) \<Rightarrow> (Crashed, c1))
           | Some TxsResults \<Rightarrow>
               (let c1 = dispatch w TxsResults (tick c) in
                case handleVote w (ChainIndexer.Height c1) c1 of
                  (Panic, c2) \<Rightarrow> (Crashed, c2)
                | (Err e, c2) \<Rightarrow> (Retried, c2)
                | (Ok u, c2) \<Rightarrow>
                    (case store_write w
                            (Save_height \<lparr>Height.Id = 1, Height.Height = ChainIndexer.Height c2\<rparr>) c2 of
                       (False, c3) \<Rightarrow> (Retried, c3)
                     | (True, c3) \<Rightarrow>
                         (Advanced, c3\<lparr>ChainIndexer.Height := ChainIndexer.Height c3 + 1\<rparr>)))))"

text \<open>
  The inner loop may run forever (a height that keeps failing is retried at once), so it
  takes fuel: the number of passes allowed. \<open>NoFuel\<close> is the loop still running.
\<close>

datatype ending = Crash | NoFuel | Return

fun Start_catch_up :: "world \<Rightarrow> i64 \<Rightarrow> nat \<Rightarrow> ChainIndexer \<Rightarrow> ending \<times> ChainIndexer" where
  "Start_catch_up w latest 0 c =
     (if ChainIndexer.Height c <s latest then (NoFuel, c) else (Return, c))"
| "Start_catch_up w latest (Suc n) c =
     (if ChainIndexer.Height c <s latest
      then (case Start_height w c of
              (Crashed, c1) \<Rightarrow> (Crash, c1)
            | (_, c1) \<Rightarrow> Start_catch_up w latest n c1)
      else (Return, c))"

text \<open>
  The body of \<^verbatim>\<open>case <-ticker.C\<close>. Its \<^verbatim>\<open>continue\<close> statements belong to the outer
  loop: they wait for the next tick (\<open>Return\<close>). When \<^verbatim>\<open>Status\<close> fails and the client
  is running or the reconnection succeeds, the code goes on to \<^verbatim>\<open>b.SyncInfo\<close> with a
  nil \<^verbatim>\<open>b\<close>.
\<close>

definition Start_tick :: "world \<Rightarrow> nat \<Rightarrow> ChainIndexer \<Rightarrow> ending \<times> ChainIndexer" where
  "Start_tick w fuel c =
     (let (connected, c1) =
            (case cli c of
               None \<Rightarrow>
                 if rpc_New w (clock c) then (True, tick c\<lparr>cli := Some (HTTP (Url c))\<rparr>)
                 else (False, tick c\<lparr>cli := None\<rparr>)
             | Some _ \<Rightarrow> (True, c))
      in if \<not> connected then (Return, c1)
         else (case rpc_Status w (clock c1) of
                 None \<Rightarrow>
                   (case reconnect w (tick c1) of
                      (True, c2) \<Rightarrow> (Return, c2)
                    | (False, c2) \<Rightarrow> (Crash, c2))
               | Some latest \<Rightarrow> Start_catch_up w latest fuel (tick c1)))"

text \<open>\<^verbatim>\<open>Start\<close> until the context is done after \<open>n\<close> ticks, or a tick does not return.\<close>

fun Start :: "world \<Rightarrow> nat \<Rightarrow> nat \<Rightarrow> ChainIndexer \<Rightarrow> ending \<times> ChainIndexer" where
  "Start w fuel 0 c = (Return, c)"
| "Start w fuel (Suc n) c =
     (case Start_tick w fuel c of
        (Return, c1) \<Rightarrow> Start w fuel n c1
      | (e, c1) \<Rightarrow> (e, c1))"

text \<open>The persisted height: the \<^verbatim>\<open>Height\<close> row 1, and 0 when there is none.\<close>

definition persisted :: "store \<Rightarrow> u64" where
  "persisted s = (case First_height s of None \<Rightarrow> 0 | Some r \<Rightarrow> Height.Height r)"

section \<open>Notions used by the properties\<close>

text \<open>
  The pending record of a height as the specification describes it: a proposal created at
  the height, else a proposal settled at it, else a grant at it, where a record counts
  when its key is not zero.
\<close>

datatype pending = CreatedAt Proposal | SettledAt Proposal | GrantedAt Grant | Nothing

definition pending_at :: "i64 \<Rightarrow> store \<Rightarrow> pending" where
  "pending_at H s =
     (let third = (case First_grant H s of
                     Some g \<Rightarrow> if Grant.Id g \<noteq> 0 then GrantedAt g else Nothing
                   | None \<Rightarrow> Nothing);
          second = (case First_settle_proposal H s of
                      Some p \<Rightarrow> if Proposal.Id p \<noteq> 0 then SettledAt p else third
                    | None \<Rightarrow> third)
      in case First_new_proposal H s of
           Some p \<Rightarrow> if Proposal.Id p \<noteq> 0 then CreatedAt p else second
         | None \<Rightarrow> second)"

text \<open>The logical key of a vote row: height and voter index.\<close>

definition proposal_vote_key :: "ProposalVote \<Rightarrow> i64 \<times> u64" where
  "proposal_vote_key r = (ProposalVote.Height r, ProposalVote.VoterIndex r)"

definition grant_vote_key :: "GrantVote \<Rightarrow> i64 \<times> u64" where
  "grant_vote_key r = (GrantVote.Height r, GrantVote.VoterIndex r)"

text \<open>The vote table of a pending record holds a row of the voter at the height.\<close>

definition has_vote :: "pending \<Rightarrow> store \<Rightarrow> i64 \<Rightarrow> u64 \<Rightarrow> bool" where
  "has_vote k s H voter =
     (case k of
        Nothing \<Rightarrow> False
      | GrantedAt g \<Rightarrow> (H, voter) \<in> set (map grant_vote_key (grant_votes s))
      | _ \<Rightarrow> (H, voter) \<in> set (map proposal_vote_key (proposal_votes s)))"

text \<open>
  What the chain answers at time \<open>t\<close> to the point query for a validator address: the
  account, or \<open>None\<close> when the RPC call fails, the response code is not zero or the
  payload is no account. An empty address is looked up as index 0.
\<close>

definition account_at :: "world \<Rightarrow> nat \<Rightarrow> byte list \<Rightarrow> Account option" where
  "account_at w t address =
     (case rpc_ABCIQuery w t ''/accounts/'' (if address = [] then [0] else address) of
        None \<Rightarrow> None
      | Some res \<Rightarrow>
          if ResponseQuery.Code res \<noteq> 0 then None else UnmarshalJSON w (ResponseQuery.Value res))"

text \<open>
  The in-memory height is the height after the persisted one, and positive as an
  \<^verbatim>\<open>int64\<close>.
\<close>

definition synced :: "ChainIndexer \<Rightarrow> bool" where
  "synced c \<longleftrightarrow> 0 <s ChainIndexer.Height c \<and> persisted (db c) + 1 = ChainIndexer.Height c"

text \<open>A step keeps a column of the store and the in-memory height.\<close>

definition keeps :: "(store \<Rightarrow> 'a) \<Rightarrow> ChainIndexer \<Rightarrow> ChainIndexer \<Rightarrow> bool" where
  "keeps col c c' \<longleftrightarrow> col (db c') = col (db c) \<and> ChainIndexer.Height c' = ChainIndexer.Height c"

text \<open>A table grown by appending rows that satisfy \<open>Q\<close>.\<close>

definition appended :: "('r \<Rightarrow> bool) \<Rightarrow> 'r list \<Rightarrow> 'r list \<Rightarrow> bool" where
  "appended Q xs ys \<longleftrightarrow> (\<exists>new. ys = xs @ new \<and> (\<forall>r \<in> set new. Q r))"

section \<open>A scenario\<close>

text \<open>
  A chain at height 102 with three validators \<open>A1\<close>, \<open>B2\<close>, \<open>C3\<close> that sign every
  commit; block 100 carries the event of proposal 7. The indexer has persisted height 99.
\<close>

definition ev_proposal :: abci_event where
  "ev_proposal = \<lparr>abci_event.Type = ''proposal'', Attributes = [(''index'', ''7'')]\<rparr>"

definition ev_settle :: abci_event where
  "ev_settle = \<lparr>abci_event.Type = ''settle'', Attributes = [(''index'', ''7'')]\<rparr>"

definition ev_grant :: abci_event where
  "ev_grant = \<lparr>abci_event.Type = ''grant'', Attributes = [(''validator'', ''4'')]\<rparr>"

definition sig_A1 :: CommitSig where
  "sig_A1 = \<lparr>ValidatorAddress = [0xA1], VoteCode = 2\<rparr>"

definition sig_B2 :: CommitSig where
  "sig_B2 = \<lparr>ValidatorAddress = [0xB2], VoteCode = 2\<rparr>"

definition sig_C3 :: CommitSig where
  "sig_C3 = \<lparr>ValidatorAddress = [0xC3], VoteCode = 1\<rparr>"

definition sig_E5 :: CommitSig where
  "sig_E5 = \<lparr>ValidatorAddress = [0xE5], VoteCode = 2\<rparr>"

definition account_of :: "byte list \<Rightarrow> Account option" where
  "account_of bs =
     (case bs of
        [b] \<Rightarrow> Some \<lparr>Account.Index = ucast b, Account.Address = HexBytes_String [b]\<rparr>
      | _ \<Rightarrow> None)"

definition scenario :: world where
  "scenario = \<lparr>
     EventGrantType = ''grant'',
     EventDiscussionType = ''discussion'',
     EventSettleProposalType = ''settle'',
     EventProposalType = ''proposal'',
     ParseEventGrant = (\<lambda>e. if abci_event.Type e = ''grant''
        then Some \<lparr>EventGrant.Validator = 4, EventGrant.Address = ''D4'', EventGrant.Amount = 50,
               EventGrant.ProposerIndex = 1, EventGrant.ProposerAddress = ''A1'',
               EventGrant.Grant = True, EventGrant.AgentUrl = ''http://d4''\<rparr>
        else None),
     DecodeEventDiscussion = (\<lambda>e. None),
     DecodeEventSettleProposal = (\<lambda>e. if abci_event.Type e = ''settle''
        then Some \<lparr>EventSettleProposal.Proposal = 7, EventSettleProposal.State = 2\<rparr>
        else None),
     DecodeEventProposal = (\<lambda>e. if abci_event.Type e = ''proposal''
        then Some \<lparr>EventProposal.ProposalIndex = 7, EventProposal.Proposer = 3,
               EventProposal.ProposerAddress = ''C3'', EventProposal.Data = [1, 2],
               EventProposal.Status = 1\<rparr>
        else None),
     UnmarshalJSON = account_of,
     rpc_New = (\<lambda>t. True),
     rpc_IsRunning = (\<lambda>t. True),
     rpc_Status = (\<lambda>t. Some 102),
     rpc_BlockResults = (\<lambda>t h. Some (if h = 100 then [[ev_proposal]] else [])),
     rpc_Commit = (\<lambda>t h. Some \<lparr>ResultCommit.Height = h, Signatures = [sig_A1, sig_B2, sig_C3]\<rparr>),
     rpc_ABCIQuery = (\<lambda>t path dat.
        if dat = [0xA1] \<or> dat = [0xB2] \<or> dat = [0xC3]
        then Some \<lparr>ResponseQuery.Code = 0, Value = dat\<rparr>
        else Some \<lparr>ResponseQuery.Code = 1, Value = []\<rparr>),
     store_fault = (\<lambda>t. False)\<rparr>"

definition empty_store :: store where
  "empty_store = \<lparr>heights = [], validators = [], proposals = [], grants = [],
     proposal_votes = [], grant_votes = [], discussions = []\<rparr>"

definition proposal_7 :: Proposal where
  "proposal_7 = \<lparr>Proposal.Id = 7, Proposal.ProposerIndex = 3, Proposal.ProposerAddress = ''C3'',
     Proposal.Data = [1, 2], Proposal.NewHeight = 100, Proposal.SettleHeight = 150,
     Proposal.Status = 2\<rparr>"

definition indexer_at :: "i64 \<Rightarrow> store \<Rightarrow> ChainIndexer" where
  "indexer_at h s = \<lparr>Url = ''tcp://node'', ChainIndexer.Height = h, db = s,
     cli = Some (HTTP ''tcp://node''), clock = 0\<rparr>"

text \<open>A store whose persisted height is \<open>h\<close>, without and with proposal 7.\<close>

definition store_at :: "u64 \<Rightarrow> store" where
  "store_at h = empty_store\<lparr>heights := [\<lparr>Height.Id = 1, Height.Height = h\<rparr>]\<rparr>"

definition store_7 :: store where
  "store_7 = (store_at 99)\<lparr>proposals := [proposal_7]\<rparr>"

text \<open>A proposal created at height 100 under the key 0.\<close>

definition proposal_0 :: Proposal where
  "proposal_0 = proposal_7\<lparr>Proposal.Id := 0\<rparr>"

definition store_0 :: store where
  "store_0 = (store_at 99)\<lparr>proposals := [proposal_0]\<rparr>"

text \<open>
  The same chain whose commits are signed by \<open>A1\<close> and by \<open>E5\<close>, an address the chain
  does not know; and the chain after \<open>E5\<close> has become known.
\<close>

definition scenario_E5 :: world where
  "scenario_E5 = scenario\<lparr>rpc_Commit :=
     (\<lambda>t h. Some \<lparr>ResultCommit.Height = h, Signatures = [sig_A1, sig_E5]\<rparr>)\<rparr>"

definition scenario_E5_known :: world where
  "scenario_E5_known = scenario_E5\<lparr>rpc_ABCIQuery :=
     (\<lambda>t path dat. Some \<lparr>ResponseQuery.Code = 0, Value = dat\<rparr>)\<rparr>"

text \<open>The account of a signature in the scenario.\<close>

definition signer :: "CommitSig \<Rightarrow> Account" where
  "signer v = \<lparr>Account.Index = ucast (hd (ValidatorAddress v)),
     Account.Address = HexBytes_String [hd (ValidatorAddress v)]\<rparr>"

text \<open>The same chain with a record store that fails at time \<open>t0\<close> only.\<close>

definition faulty :: "nat \<Rightarrow> world" where
  "faulty t0 = scenario\<lparr>store_fault := (\<lambda>t. t = t0)\<rparr>"

section \<open>Auxiliary lemmas\<close>

lemma fold_least_in: "fold (\<lambda>x m. if key x < key m then x else m) rs r \<in> set (r # rs)"
  by (induction rs arbitrary: r) auto

lemma first_where_None_filter: "first_where key P tbl = None \<longleftrightarrow> filter P tbl = []"
  by (simp add: first_where_def split: list.splits)

lemma first_where_None: "first_where key P tbl = None \<longleftrightarrow> (\<forall>r \<in> set tbl. \<not> P r)"
  by (simp add: first_where_None_filter filter_empty_conv)

lemma first_where_Some: "first_where key P tbl = Some r \<Longrightarrow> r \<in> set tbl \<and> P r"
proof -
  assume a: "first_where key P tbl = Some r"
  then obtain x xs where f: "filter P tbl = x # xs"
    and r: "r = fold (\<lambda>x m. if key x < key m then x else m) xs x"
    by (auto simp: first_where_def split: list.splits)
  have "r \<in> set (x # xs)" unfolding r by (rule fold_least_in)
  then have "r \<in> set (filter P tbl)" using f by simp
  then show ?thesis by simp
qed

lemma fold_least_same:
  "\<forall>x \<in> set rs. x = r \<Longrightarrow> fold (\<lambda>x m. if key x < key m then x else m) rs r = r"
  by (induction rs) auto

lemma first_where_key_map:
  assumes "key r = k" "\<exists>x \<in> set tbl. key x = k"
  shows "first_where key (\<lambda>x. key x = k) (map (\<lambda>x. if key x = k then r else x) tbl) = Some r"
proof -
  let ?tbl = "map (\<lambda>x. if key x = k then r else x) tbl"
  have all: "\<forall>x \<in> set (filter (\<lambda>x. key x = k) ?tbl). x = r"
    using assms by auto
  have ne: "filter (\<lambda>x. key x = k) ?tbl \<noteq> []"
    using assms by (auto simp: filter_empty_conv)
  then obtain y ys where f: "filter (\<lambda>x. key x = k) ?tbl = y # ys"
    by (cases "filter (\<lambda>x. key x = k) ?tbl") auto
  have "y = r" "\<forall>x \<in> set ys. x = r" using all f by auto
  then show ?thesis
    using f by (simp add: first_where_def fold_least_same)
qed

lemma first_where_key_append:
  assumes "key r = k" "\<forall>x \<in> set tbl. key x \<noteq> k"
  shows "first_where key (\<lambda>x. key x = k) (tbl @ [r]) = Some r"
  using assms by (simp add: first_where_def filter_empty_conv[THEN iffD2])

lemma first_where_save_row:
  assumes "key r = k" "k \<noteq> 0"
  shows "first_where key (\<lambda>x. key x = k) (save_row key set_key r tbl) = Some r"
  using assms first_where_key_map[of key r k tbl] first_where_key_append[of key r k tbl]
  by (auto simp: save_row_def)

lemma save_row_keys:
  "key r \<noteq> 0 \<Longrightarrow> x \<in> set tbl \<Longrightarrow> \<exists>y \<in> set (save_row key set_key r tbl). key y = key x"
  by (cases "key x = key r") (auto simp: save_row_def)

lemma save_row_other:
  "x \<in> set tbl \<Longrightarrow> key x \<noteq> key r \<Longrightarrow> key r \<noteq> 0 \<Longrightarrow> x \<in> set (save_row key set_key r tbl)"
  by (auto simp: save_row_def)

lemma tick_simps [simp]:
  "db (tick c) = db c" "ChainIndexer.Height (tick c) = ChainIndexer.Height c"
  "cli (tick c) = cli c" "Url (tick c) = Url c" "clock (tick c) = Suc (clock c)"
  by (simp_all add: tick_def)

lemma store_write_Height [simp]:
  "ChainIndexer.Height (snd (store_write w f c)) = ChainIndexer.Height c"
  by (simp add: store_write_def)

lemma store_write_cli [simp]: "cli (snd (store_write w f c)) = cli c"
  by (simp add: store_write_def)

lemma store_write_clock [simp]: "clock (snd (store_write w f c)) = Suc (clock c)"
  by (simp add: store_write_def)

lemma store_write_db:
  "db (snd (store_write w f c)) = (if store_fault w (clock c) then db c else f (db c))"
  by (simp add: store_write_def)

lemma store_first_snd [simp]: "snd (store_first w f c) = tick c"
  by (simp add: store_first_def split: option.splits)

lemma store_first_fst:
  "fst (store_first w f c) =
     (if store_fault w (clock c) then QueryError
      else case f (db c) of None \<Rightarrow> NotFound | Some r \<Rightarrow> Found r)"
  by (simp add: store_first_def split: option.splits)

lemma reconnect_frame [simp]:
  "db (snd (reconnect w c)) = db c"
  "ChainIndexer.Height (snd (reconnect w c)) = ChainIndexer.Height c"
  by (simp_all add: reconnect_def)

lemma Save_frames [simp]:
  "heights (Save_grant g s) = heights s"
  "heights (Save_validator v s) = heights s"
  "heights (Save_discussion d s) = heights s"
  "heights (Save_proposal p s) = heights s"
  "heights (Create_proposal_vote pv s) = heights s"
  "heights (Create_grant_vote gv s) = heights s"
  by (simp_all add: Save_grant_def Save_validator_def Save_discussion_def Save_proposal_def
      Create_proposal_vote_def Create_grant_vote_def)

lemma handleEventGrant_frame:
  "heights (db (handleEventGrant w e h c)) = heights (db c) \<and>
   ChainIndexer.Height (handleEventGrant w e h c) = ChainIndexer.Height c"
  by (simp add: handleEventGrant_def Let_def store_write_db split: option.splits)

lemma handleEventDiscussion_frame:
  "heights (db (handleEventDiscussion w e h c)) = heights (db c) \<and>
   ChainIndexer.Height (handleEventDiscussion w e h c) = ChainIndexer.Height c"
  by (simp add: handleEventDiscussion_def Let_def store_write_db split: option.splits)

lemma handleEventProposal_frame:
  "heights (db (handleEventProposal w e h c)) = heights (db c) \<and>
   ChainIndexer.Height (handleEventProposal w e h c) = ChainIndexer.Height c"
  by (simp add: handleEventProposal_def Let_def store_write_db split: option.splits)

lemma store_firstD: "store_first w f c = (q, c1) \<Longrightarrow> c1 = tick c"
  by (metis store_first_snd snd_conv)

lemma handleEventSettleProposal_frame:
  "heights (db (handleEventSettleProposal w e h c)) = heights (db c) \<and>
   ChainIndexer.Height (handleEventSettleProposal w e h c) = ChainIndexer.Height c"
  by (auto simp: handleEventSettleProposal_def store_write_db
      split: option.splits prod.splits query.splits dest!: store_firstD)

lemma handleEvent_frame:
  "heights (db (handleEvent w e h c)) = heights (db c) \<and>
   ChainIndexer.Height (handleEvent w e h c) = ChainIndexer.Height c"
  using handleEventGrant_frame handleEventDiscussion_frame handleEventProposal_frame
    handleEventSettleProposal_frame
  by (simp add: handleEvent_def eventHandlers_def)

lemma dispatch_frame:
  "heights (db (dispatch w txs c)) = heights (db c) \<and>
   ChainIndexer.Height (dispatch w txs c) = ChainIndexer.Height c"
proof -
  have inner: "\<And>res c. heights (db (fold (\<lambda>event c2. handleEvent w event (ChainIndexer.Height c2) c2) res c)) = heights (db c)
      \<and> ChainIndexer.Height (fold (\<lambda>event c2. handleEvent w event (ChainIndexer.Height c2) c2) res c) = ChainIndexer.Height c"
    subgoal for res c
      by (induction res arbitrary: c) (simp_all add: handleEvent_frame)
    done
  show ?thesis
    unfolding dispatch_def
    by (induction txs arbitrary: c) (simp_all add: inner)
qed

lemma reconnectD:
  "reconnect w c = (b, c1) \<Longrightarrow> db c1 = db c \<and> ChainIndexer.Height c1 = ChainIndexer.Height c"
  by (auto simp: reconnect_def split: if_splits)

lemma queryAccount_frame:
  "queryAccount w i a c = (r, c1) \<Longrightarrow> db c1 = db c \<and> ChainIndexer.Height c1 = ChainIndexer.Height c"
  by (auto simp: queryAccount_def split: sum.splits option.splits prod.splits bool.splits if_splits
      dest!: reconnectD)

lemma keeps_refl [simp]: "keeps col c c"
  by (simp add: keeps_def)

lemma keeps_trans: "keeps col c c1 \<Longrightarrow> keeps col c1 c2 \<Longrightarrow> keeps col c c2"
  by (simp add: keeps_def)

lemma keeps_tick [simp]: "keeps col c (tick c)"
  by (simp add: keeps_def)

lemma keeps_queryAccount: "queryAccount w i a c = (r, c1) \<Longrightarrow> keeps col c c1"
  by (drule queryAccount_frame) (simp add: keeps_def)

lemma keeps_store_first: "store_first w f c = (q, c1) \<Longrightarrow> keeps col c c1"
  by (drule store_firstD) simp

lemma keeps_store_write:
  "store_write w f c = (ok, c1) \<Longrightarrow> (\<And>s. col (f s) = col s) \<Longrightarrow> keeps col c c1"
  by (auto simp: store_write_def keeps_def split: if_splits)

lemma for_Signatures_keeps:
  assumes "\<And>v c r c'. body v c = (r, c') \<Longrightarrow> keeps col c c'"
  shows "for_Signatures body vs c = (r, c') \<Longrightarrow> keeps col c c'"
proof (induction vs arbitrary: c)
  case Nil
  then show ?case by simp
next
  case (Cons v vs)
  obtain r1 c1 where b: "body v c = (r1, c1)" by (cases "body v c")
  have k: "keeps col c c1" using b by (rule assms)
  show ?case
  proof (cases r1)
    case (Ok u)
    with Cons.prems b have "for_Signatures body vs c1 = (r, c')" by simp
    from k Cons.IH[OF this] show ?thesis by (rule keeps_trans)
  qed (use Cons.prems b k in auto)
qed

lemma proposal_vote_body_keeps:
  assumes "\<And>v s. col (Create_proposal_vote v s) = col s"
  shows "proposal_vote_body w vh pid v c = (r, c') \<Longrightarrow> keeps col c c'"
  by (auto simp: proposal_vote_body_def Let_def
      split: prod.splits result.splits option.splits query.splits bool.splits
      dest!: keeps_queryAccount[where col=col] keeps_store_first[where col=col]
      dest: keeps_store_write[where col=col, OF _ assms] intro: keeps_trans)

lemma grant_vote_body_keeps:
  assumes "\<And>v s. col (Create_grant_vote v s) = col s"
  shows "grant_vote_body w vh g v c = (r, c') \<Longrightarrow> keeps col c c'"
  by (auto simp: grant_vote_body_def Let_def
      split: prod.splits result.splits option.splits query.splits bool.splits
      dest!: keeps_queryAccount[where col=col] keeps_store_first[where col=col]
      dest: keeps_store_write[where col=col, OF _ assms] intro: keeps_trans)

lemma zero_Id [simp]: "Proposal.Id Proposal_zero = 0" "Grant.Id Grant_zero = 0"
  by (simp_all add: Proposal_zero_def Grant_zero_def)

lemma reconcile_cases:
  assumes "reconcile w res c = (r, c')"
  shows "(r = Err StoreError \<and> (c' = tick c \<or> c' = tick (tick c) \<or> c' = tick (tick (tick c))))
    \<or> (\<exists>pid. for_Signatures (proposal_vote_body w (ResultCommit.Height res) pid) (Signatures res) (tick c) = (r, c'))
    \<or> (\<exists>pid. for_Signatures (proposal_vote_body w (ResultCommit.Height res) pid) (Signatures res) (tick (tick c)) = (r, c'))
    \<or> (\<exists>g. for_Signatures (grant_vote_body w (ResultCommit.Height res) g) (Signatures res) (tick (tick (tick c))) = (r, c'))
    \<or> (r = Ok () \<and> c' = tick (tick (tick c)))"
  using assms unfolding reconcile_def Let_def
  by (auto split: prod.splits query.splits if_splits dest!: store_firstD)

lemma reconcile_keeps:
  assumes "\<And>v s. col (Create_proposal_vote v s) = col s"
    and "\<And>v s. col (Create_grant_vote v s) = col s"
  shows "reconcile w res c = (r, c') \<Longrightarrow> keeps col c c'"
proof -
  assume a: "reconcile w res c = (r, c')"
  have p: "\<And>pid c0. for_Signatures (proposal_vote_body w (ResultCommit.Height res) pid) (Signatures res) c0 = (r, c') \<Longrightarrow> keeps col c0 c'"
    by (erule for_Signatures_keeps[rotated]) (erule proposal_vote_body_keeps[OF assms(1)])
  have g: "\<And>g c0. for_Signatures (grant_vote_body w (ResultCommit.Height res) g) (Signatures res) c0 = (r, c') \<Longrightarrow> keeps col c0 c'"
    by (erule for_Signatures_keeps[rotated]) (erule grant_vote_body_keeps[OF assms(2)])
  from reconcile_cases[OF a] show ?thesis
    using p g by (fastforce simp: keeps_def)
qed

lemma handleVote_keeps:
  assumes "\<And>v s. col (Create_proposal_vote v s) = col s"
    and "\<And>v s. col (Create_grant_vote v s) = col s"
  shows "handleVote w h c = (r, c') \<Longrightarrow> keeps col c c'"
  unfolding handleVote_def
  by (auto split: option.splits prod.splits bool.splits
      dest!: reconnectD dest: reconcile_keeps[where col=col, OF assms] simp: keeps_def)

lemma persisted_Save_height:
  "persisted (Save_height \<lparr>Height.Id = 1, Height.Height = h\<rparr> s) = h"
  using first_where_save_row[of Height.Id "\<lparr>Height.Id = 1, Height.Height = h\<rparr>" 1
      "(\<lambda>n x. x\<lparr>Height.Id := n\<rparr>)" "heights s"]
  by (simp add: persisted_def First_height_def Save_height_def)

lemma persisted_cong: "heights s = heights s' \<Longrightarrow> persisted s = persisted s'"
  by (simp add: persisted_def First_height_def)

lemma handleVote_progress:
  "handleVote w h c = (r, c') \<Longrightarrow>
   heights (db c') = heights (db c) \<and> ChainIndexer.Height c' = ChainIndexer.Height c"
  using handleVote_keeps[where col=heights, of w h c r c'] by (simp add: keeps_def)

lemma Start_height_shape:
  "Start_height w c =
     (case cli c of
        None \<Rightarrow> (Crashed, c)
      | Some x \<Rightarrow>
          (case rpc_BlockResults w (clock c) (ChainIndexer.Height c) of
             None \<Rightarrow>
               (case reconnect w (tick c) of
                  (True, c1) \<Rightarrow> (Retried, c1)
                | (False, c1) \<Rightarrow> (Crashed, c1))
           | Some TxsResults \<Rightarrow>
               (case handleVote w (ChainIndexer.Height c) (dispatch w TxsResults (tick c)) of
                  (Panic, c2) \<Rightarrow> (Crashed, c2)
                | (Err e, c2) \<Rightarrow> (Retried, c2)
                | (Ok u, c2) \<Rightarrow>
                    if store_fault w (clock c2) then (Retried, tick c2)
                    else (Advanced,
                      tick (c2\<lparr>db := Save_height \<lparr>Height.Id = 1, Height.Height = ChainIndexer.Height c\<rparr> (db c2)\<rparr>)
                        \<lparr>ChainIndexer.Height := ChainIndexer.Height c + 1\<rparr>))))"
proof (cases "cli c")
  case None
  then show ?thesis by (simp add: Start_height_def)
next
  case (Some x)
  show ?thesis
  proof (cases "rpc_BlockResults w (clock c) (ChainIndexer.Height c)")
    case None
    with Some show ?thesis by (simp add: Start_height_def)
  next
    case Some2: (Some txs)
    have h: "ChainIndexer.Height (dispatch w txs (tick c)) = ChainIndexer.Height c"
      by (simp add: dispatch_frame)
    obtain r c2 where hv: "handleVote w (ChainIndexer.Height c) (dispatch w txs (tick c)) = (r, c2)"
      by (cases "handleVote w (ChainIndexer.Height c) (dispatch w txs (tick c))")
    have h2: "ChainIndexer.Height c2 = ChainIndexer.Height c"
      using handleVote_progress[OF hv] h by simp
    show ?thesis
      using Some Some2 hv h2
      by (cases r) (simp_all add: Start_height_def Let_def h store_write_def)
  qed
qed

lemma upper_digits: "\<forall>k \<in> set [0..<16]. fromHexChar (upper_hextable ! k) = Some (of_nat k)"
  by code_simp

lemma fromHexChar_upper: "n < 16 \<Longrightarrow> fromHexChar (upper_hextable ! n) = Some (of_nat n)"
  using upper_digits by simp

lemma fifteen: "(15::byte) = mask 4"
  by (simp add: mask_eq_decr_exp)

lemma nibbles: "push_bit 4 (drop_bit 4 b) OR (b AND 15) = (b :: byte)"
  unfolding fifteen take_bit_eq_mask[symmetric]
  by (rule bit_word_eqI) (auto simp: bit_simps)

lemma hi_lt: "unat (drop_bit 4 (b::byte)) < 16"
proof -
  have "unat b < 256" using unsigned_less[of b] by simp
  then show ?thesis by (simp add: drop_bit_eq_div unat_div)
qed

lemma lo_lt: "unat ((b::byte) AND 15) < 16"
  unfolding fifteen take_bit_eq_mask[symmetric]
  using take_bit_nat_less_exp[of 4 "unat b"] by (simp add: unsigned_take_bit_eq)

lemma sint_succ:
  assumes "x <s (y::64 word)"
  shows "sint (x + 1) = sint x + 1"
proof -
  have "sint x < sint y" using assms by (simp add: word_sless_alt)
  moreover have "sint y < 2 ^ 63" using sint_lt[of y] by simp
  moreover have "- (2 ^ 63) \<le> sint x" using sint_ge[of x] by simp
  ultimately have "signed_take_bit 63 (sint x + 1) = sint x + 1"
    by (intro signed_take_bit_int_eq_self) auto
  then show ?thesis by (simp add: sint_word_ariths)
qed

lemma w1: "x <s y \<Longrightarrow> 0 <s x \<Longrightarrow> 0 <s x + (1::64 word)"
  by (simp add: word_sless_alt sint_succ[unfolded word_sless_alt])

lemma w2: "x <s y \<Longrightarrow> x \<le>s x + (1::64 word)"
  by (simp add: word_sless_alt word_sle_eq sint_succ[unfolded word_sless_alt])

lemma w2b: "x <s y \<Longrightarrow> x + (1::64 word) \<le>s y"
  by (simp add: word_sless_alt word_sle_eq sint_succ[unfolded word_sless_alt])

lemma w3: "p + 1 \<noteq> 0 \<Longrightarrow> p \<le> p + (1::64 word)"
  by (meson linorder_not_le olen_add_eqv word_less_1)

lemma HexBytes_roundtrip: "DecodeString (HexBytes_String bs) = (bs, True)"
  by (induction bs) (simp_all add: fromHexChar_upper hi_lt lo_lt nibbles)

lemma HexBytes_String_empty: "HexBytes_String bs = [] \<longleftrightarrow> bs = []"
  by (cases bs) simp_all

lemma query_key_address:
  "query_key 0 (HexBytes_String address) = Inr (if address = [] then [0] else address)"
proof (cases address)
  case Nil
  then show ?thesis by (simp add: query_key_def hextable_def fromHexChar_def)
next
  case (Cons b bs)
  then have "HexBytes_String address \<noteq> []" by simp
  then show ?thesis
    using Cons by (simp add: query_key_def HexBytes_roundtrip del: HexBytes_String.simps)
qed

lemma queryAccount_resolved:
  assumes "cli c \<noteq> None" "account_at w (clock c) address = Some acc"
  shows "queryAccount w 0 (HexBytes_String address) c = (Ok (Some acc), tick c)"
  using assms
  by (auto simp: queryAccount_def query_key_address account_at_def
      split: option.splits if_splits)

lemma queryAccount_refused:
  assumes "cli c \<noteq> None" "account_at w (clock c) address = None"
    "rpc_ABCIQuery w (clock c) ''/accounts/'' (if address = [] then [0] else address) \<noteq> None"
  shows "\<exists>e. queryAccount w 0 (HexBytes_String address) c = (Err e, tick c)"
  using assms
  by (auto simp: queryAccount_def query_key_address account_at_def
      split: option.splits if_splits)

lemma store_first_ok:
  "\<not> store_fault w (clock c) \<Longrightarrow>
   store_first w f c = ((case f (db c) of None \<Rightarrow> NotFound | Some r \<Rightarrow> Found r), tick c)"
  by (simp add: store_first_def split: option.splits)

lemma reconcile_pending:
  assumes "\<not> store_fault w (clock c)" "\<not> store_fault w (clock c + 1)"
    "\<not> store_fault w (clock c + 2)"
  shows "reconcile w res c =
     (case pending_at (ResultCommit.Height res) (db c) of
        CreatedAt p \<Rightarrow>
          for_Signatures (proposal_vote_body w (ResultCommit.Height res) (Proposal.Id p))
            (Signatures res) (tick c)
      | SettledAt p \<Rightarrow>
          for_Signatures (proposal_vote_body w (ResultCommit.Height res) (Proposal.Id p))
            (Signatures res) (tick (tick c))
      | GrantedAt g \<Rightarrow>
          for_Signatures (grant_vote_body w (ResultCommit.Height res) g)
            (Signatures res) (tick (tick (tick c)))
      | Nothing \<Rightarrow> (Ok (), tick (tick (tick c))))"
  using assms
  by (simp add: reconcile_def pending_at_def Let_def store_first_ok split: option.splits)

lemma handleVote_pending:
  assumes "cli c \<noteq> None" "rpc_Commit w (clock c) height = Some res"
    "\<not> store_fault w (clock c + 1)" "\<not> store_fault w (clock c + 2)"
    "\<not> store_fault w (clock c + 3)"
  shows "handleVote w height c =
     (case pending_at (ResultCommit.Height res) (db c) of
        CreatedAt p \<Rightarrow>
          for_Signatures (proposal_vote_body w (ResultCommit.Height res) (Proposal.Id p))
            (Signatures res) (tick (tick c))
      | SettledAt p \<Rightarrow>
          for_Signatures (proposal_vote_body w (ResultCommit.Height res) (Proposal.Id p))
            (Signatures res) (tick (tick (tick c)))
      | GrantedAt g \<Rightarrow>
          for_Signatures (grant_vote_body w (ResultCommit.Height res) g)
            (Signatures res) (tick (tick (tick (tick c))))
      | Nothing \<Rightarrow> (Ok (), tick (tick (tick (tick c)))))"
proof -
  have "handleVote w height c = reconcile w res (tick c)"
    using assms(1,2) by (auto simp: handleVote_def)
  then show ?thesis
    using assms(3-5) reconcile_pending[of w "tick c" res] by (simp add: eval_nat_numeral)
qed

lemma store_first_NotFoundD:
  "store_first w f c = (NotFound, c1) \<Longrightarrow> f (db c) = None \<and> c1 = tick c"
  by (auto simp: store_first_def split: if_splits option.splits)

lemma store_write_TrueD: "store_write w f c = (True, c1) \<Longrightarrow> db c1 = f (db c)"
  by (auto simp: store_write_def split: if_splits)

lemma store_write_FalseD: "store_write w f c = (False, c1) \<Longrightarrow> db c1 = db c"
  by (auto simp: store_write_def split: if_splits)

lemma proposal_vote_body_cases:
  assumes "proposal_vote_body w vh pid v c = (r, c')"
  shows "db c' = db c \<or>
    (\<exists>acc::Account. r = Ok () \<and> First_proposal_vote vh (Account.Index acc) (db c) = None \<and>
       db c' = Create_proposal_vote
         \<lparr>ProposalVote.Id = 0, ProposalVote.Proposal = pid,
          ProposalVote.VoterIndex = Account.Index acc,
          ProposalVote.VoterAddress = HexBytes_String (ValidatorAddress v),
          ProposalVote.Height = vh, ProposalVote.Vote = VoteCode v\<rparr> (db c))"
proof -
  obtain qa c1 where qa: "queryAccount w 0 (HexBytes_String (ValidatorAddress v)) c = (qa, c1)"
    by (cases "queryAccount w 0 (HexBytes_String (ValidatorAddress v)) c")
  have d1: "db c1 = db c" using queryAccount_frame[OF qa] by simp
  show ?thesis
  proof (cases qa)
    case (Ok a)
    show ?thesis
    proof (cases a)
      case None
      with Ok qa assms d1 show ?thesis by (simp add: proposal_vote_body_def)
    next
      case (Some acc)
      obtain q c2 where sf: "store_first w (First_proposal_vote vh (Account.Index acc)) c1 = (q, c2)"
        by (cases "store_first w (First_proposal_vote vh (Account.Index acc)) c1")
      have d2: "db c2 = db c" using store_firstD[OF sf] d1 by simp
      show ?thesis
      proof (cases q)
        case NotFound
        have nf: "First_proposal_vote vh (Account.Index acc) (db c) = None"
          using store_first_NotFoundD[OF sf[unfolded NotFound]] d1 by simp
        let ?vote = "\<lparr>ProposalVote.Id = 0, ProposalVote.Proposal = pid,
          ProposalVote.VoterIndex = Account.Index acc,
          ProposalVote.VoterAddress = HexBytes_String (ValidatorAddress v),
          ProposalVote.Height = vh, ProposalVote.Vote = VoteCode v\<rparr>"
        obtain ok c3 where sw: "store_write w (Create_proposal_vote ?vote) c2 = (ok, c3)"
          by (cases "store_write w (Create_proposal_vote ?vote) c2")
        show ?thesis
        proof (cases ok)
          case True
          have "db c3 = Create_proposal_vote ?vote (db c)"
            using sw True d2 by (auto dest!: store_write_TrueD)
          moreover have "r = Ok ()" "c' = c3"
            using assms qa Ok Some sf NotFound sw True by (simp_all add: proposal_vote_body_def)
          ultimately have "r = Ok () \<and> First_proposal_vote vh (Account.Index acc) (db c) = None \<and>
             db c' = Create_proposal_vote
               \<lparr>ProposalVote.Id = 0, ProposalVote.Proposal = pid,
                ProposalVote.VoterIndex = Account.Index acc,
                ProposalVote.VoterAddress = HexBytes_String (ValidatorAddress v),
                ProposalVote.Height = vh, ProposalVote.Vote = VoteCode v\<rparr> (db c)"
            using nf by simp
          then show ?thesis by (intro disjI2 exI)
        next
          case False
          have "db c3 = db c" using sw False d2 by (auto dest!: store_write_FalseD)
          moreover have "c' = c3"
            using assms qa Ok Some sf NotFound sw False by (simp add: proposal_vote_body_def)
          ultimately show ?thesis by simp
        qed
      qed (use assms qa Ok Some sf d2 in \<open>auto simp: proposal_vote_body_def\<close>)
    qed
  qed (use assms qa d1 in \<open>auto simp: proposal_vote_body_def\<close>)
qed

lemma grant_vote_body_cases:
  assumes "grant_vote_body w vh g v c = (r, c')"
  shows "db c' = db c \<or>
    (\<exists>acc::Account. r = Ok () \<and> First_grant_vote vh (Account.Index acc) (db c) = None \<and>
       db c' = Create_grant_vote
         \<lparr>GrantVote.Id = 0, GrantVote.ProposerIndex = Grant.Proposer g,
          GrantVote.ProposerAddress = Grant.ProposerAddress g,
          GrantVote.AccountIndex = Grant.Id g, GrantVote.AccountAddr = Grant.Address g,
          GrantVote.VoterIndex = Account.Index acc, GrantVote.VoterAddress = Account.Address acc,
          GrantVote.Height = vh, GrantVote.Vote = VoteCode v\<rparr> (db c))"
proof -
  obtain qa c1 where qa: "queryAccount w 0 (HexBytes_String (ValidatorAddress v)) c = (qa, c1)"
    by (cases "queryAccount w 0 (HexBytes_String (ValidatorAddress v)) c")
  have d1: "db c1 = db c" using queryAccount_frame[OF qa] by simp
  show ?thesis
  proof (cases qa)
    case (Ok a)
    show ?thesis
    proof (cases a)
      case None
      with Ok qa assms d1 show ?thesis by (simp add: grant_vote_body_def)
    next
      case (Some acc)
      obtain q c2 where sf: "store_first w (First_grant_vote vh (Account.Index acc)) c1 = (q, c2)"
        by (cases "store_first w (First_grant_vote vh (Account.Index acc)) c1")
      have d2: "db c2 = db c" using store_firstD[OF sf] d1 by simp
      show ?thesis
      proof (cases q)
        case NotFound
        have nf: "First_grant_vote vh (Account.Index acc) (db c) = None"
          using store_first_NotFoundD[OF sf[unfolded NotFound]] d1 by simp
        let ?vote = "\<lparr>GrantVote.Id = 0, GrantVote.ProposerIndex = Grant.Proposer g,
          GrantVote.ProposerAddress = Grant.ProposerAddress g,
          GrantVote.AccountIndex = Grant.Id g, GrantVote.AccountAddr = Grant.Address g,
          GrantVote.VoterIndex = Account.Index acc, GrantVote.VoterAddress = Account.Address acc,
          GrantVote.Height = vh, GrantVote.Vote = VoteCode v\<rparr>"
        obtain ok c3 where sw: "store_write w (Create_grant_vote ?vote) c2 = (ok, c3)"
          by (cases "store_write w (Create_grant_vote ?vote) c2")
        show ?thesis
        proof (cases ok)
          case True
          have "db c3 = Create_grant_vote ?vote (db c)"
            using sw True d2 by (auto dest!: store_write_TrueD)
          moreover have "r = Ok ()" "c' = c3"
            using assms qa Ok Some sf NotFound sw True by (simp_all add: grant_vote_body_def)
          ultimately have "r = Ok () \<and> First_grant_vote vh (Account.Index acc) (db c) = None \<and>
             db c' = Create_grant_vote
               \<lparr>GrantVote.Id = 0, GrantVote.ProposerIndex = Grant.Proposer g,
                GrantVote.ProposerAddress = Grant.ProposerAddress g,
                GrantVote.AccountIndex = Grant.Id g, GrantVote.AccountAddr = Grant.Address g,
                GrantVote.VoterIndex = Account.Index acc, GrantVote.VoterAddress = Account.Address acc,
                GrantVote.Height = vh, GrantVote.Vote = VoteCode v\<rparr> (db c)"
            using nf by simp
          then show ?thesis by (intro disjI2 exI)
        next
          case False
          have "db c3 = db c" using sw False d2 by (auto dest!: store_write_FalseD)
          moreover have "c' = c3"
            using assms qa Ok Some sf NotFound sw False by (simp add: grant_vote_body_def)
          ultimately show ?thesis by simp
        qed
      qed (use assms qa Ok Some sf d2 in \<open>auto simp: grant_vote_body_def\<close>)
    qed
  qed (use assms qa d1 in \<open>auto simp: grant_vote_body_def\<close>)
qed

lemma First_proposal_vote_None:
  "First_proposal_vote vh idx s = None \<longleftrightarrow>
   (vh, idx) \<notin> set (map proposal_vote_key (proposal_votes s))"
  by (auto simp: First_proposal_vote_def first_where_None proposal_vote_key_def)

lemma First_grant_vote_None:
  "First_grant_vote vh idx s = None \<longleftrightarrow>
   (vh, idx) \<notin> set (map grant_vote_key (grant_votes s))"
  by (auto simp: First_grant_vote_def first_where_None grant_vote_key_def)

lemma Create_proposal_vote_keys:
  "map proposal_vote_key (proposal_votes (Create_proposal_vote v s)) =
   map proposal_vote_key (proposal_votes s) @ [proposal_vote_key v]"
  by (simp add: Create_proposal_vote_def create_row_def proposal_vote_key_def)

lemma Create_grant_vote_keys:
  "map grant_vote_key (grant_votes (Create_grant_vote v s)) =
   map grant_vote_key (grant_votes s) @ [grant_vote_key v]"
  by (simp add: Create_grant_vote_def create_row_def grant_vote_key_def)

lemma Create_vote_frames [simp]:
  "grant_votes (Create_proposal_vote pv s) = grant_votes s"
  "proposals (Create_proposal_vote pv s) = proposals s"
  "grants (Create_proposal_vote pv s) = grants s"
  "proposal_votes (Create_grant_vote gv s) = proposal_votes s"
  "proposals (Create_grant_vote gv s) = proposals s"
  "grants (Create_grant_vote gv s) = grants s"
  by (simp_all add: Create_proposal_vote_def Create_grant_vote_def)

lemma for_Signatures_rel:
  assumes step: "\<And>v c r c'. body v c = (r, c') \<Longrightarrow> R c c'"
    and refl: "\<And>c. R c c"
    and trans: "\<And>a b c. R a b \<Longrightarrow> R b c \<Longrightarrow> R a c"
  shows "for_Signatures body vs c = (r, c') \<Longrightarrow> R c c'"
proof (induction vs arbitrary: c)
  case Nil
  then show ?case by (simp add: refl)
next
  case (Cons v vs)
  obtain r1 c1 where b: "body v c = (r1, c1)" by (cases "body v c")
  have k: "R c c1" using b by (rule step)
  show ?case
  proof (cases r1)
    case (Ok u)
    with Cons.prems b have "for_Signatures body vs c1 = (r, c')" by simp
    from k Cons.IH[OF this] show ?thesis by (rule trans)
  qed (use Cons.prems b k in auto)
qed

text \<open>No duplicate keys are created.\<close>

lemma proposal_vote_body_distinct:
  assumes "proposal_vote_body w vh pid v c = (r, c')"
    and "distinct (map proposal_vote_key (proposal_votes (db c)))"
  shows "distinct (map proposal_vote_key (proposal_votes (db c')))"
  using proposal_vote_body_cases[OF assms(1)] assms(2)
  by (auto simp: Create_proposal_vote_keys First_proposal_vote_None proposal_vote_key_def)

lemma grant_vote_body_distinct:
  assumes "grant_vote_body w vh g v c = (r, c')"
    and "distinct (map grant_vote_key (grant_votes (db c)))"
  shows "distinct (map grant_vote_key (grant_votes (db c')))"
  using grant_vote_body_cases[OF assms(1)] assms(2)
  by (auto simp: Create_grant_vote_keys First_grant_vote_None grant_vote_key_def)

lemma proposal_vote_body_other:
  assumes "proposal_vote_body w vh pid v c = (r, c')"
  shows "grant_votes (db c') = grant_votes (db c)"
  using proposal_vote_body_cases[OF assms] by auto

lemma grant_vote_body_other:
  assumes "grant_vote_body w vh g v c = (r, c')"
  shows "proposal_votes (db c') = proposal_votes (db c)"
  using grant_vote_body_cases[OF assms] by auto

lemma appended_refl: "appended Q xs xs"
  by (simp add: appended_def)

lemma appended_trans: "appended Q xs ys \<Longrightarrow> appended Q ys zs \<Longrightarrow> appended Q xs zs"
  by (auto simp: appended_def)

lemma appended_one: "Q r \<Longrightarrow> appended Q xs (xs @ [r])"
  by (simp add: appended_def)

lemma proposal_vote_body_appended:
  assumes "proposal_vote_body w vh pid v c = (r, c')"
  shows "appended (\<lambda>r. ProposalVote.Proposal r = pid \<and> ProposalVote.Height r = vh)
     (proposal_votes (db c)) (proposal_votes (db c'))"
  using proposal_vote_body_cases[OF assms]
  by (auto simp: Create_proposal_vote_def create_row_def appended_refl intro!: appended_one)

lemma grant_vote_body_appended:
  assumes "grant_vote_body w vh g v c = (r, c')"
  shows "appended (\<lambda>r. GrantVote.AccountIndex r = Grant.Id g \<and> GrantVote.Height r = vh)
     (grant_votes (db c)) (grant_votes (db c'))"
  using grant_vote_body_cases[OF assms]
  by (auto simp: Create_grant_vote_def create_row_def appended_refl intro!: appended_one)

lemma store_write_ok:
  "\<not> store_fault w (clock c) \<Longrightarrow> store_write w f c = (True, tick (c\<lparr>db := f (db c)\<rparr>))"
  by (simp add: store_write_def)

lemma proposal_vote_body_resolved:
  assumes "cli c \<noteq> None" "account_at w (clock c) (ValidatorAddress v) = Some acc"
    "\<not> store_fault w (clock c + 1)" "\<not> store_fault w (clock c + 2)"
  shows "\<exists>c'. proposal_vote_body w vh pid v c = (Ok (), c') \<and> cli c' = cli c \<and>
      (vh, Account.Index acc) \<in> set (map proposal_vote_key (proposal_votes (db c'))) \<and>
      ((vh, Account.Index acc) \<in> set (map proposal_vote_key (proposal_votes (db c)))
         \<longrightarrow> db c' = db c)"
proof (cases "First_proposal_vote vh (Account.Index acc) (db c)")
  case None
  then have "(vh, Account.Index acc) \<notin> set (map proposal_vote_key (proposal_votes (db c)))"
    using First_proposal_vote_None[THEN iffD1] by blast
  with None show ?thesis
    using assms
    by (simp add: proposal_vote_body_def queryAccount_resolved store_first_ok store_write_ok
        Create_proposal_vote_keys proposal_vote_key_def del: set_map)
next
  case (Some r)
  then have "(vh, Account.Index acc) \<in> set (map proposal_vote_key (proposal_votes (db c)))"
    using First_proposal_vote_None[of vh "Account.Index acc" "db c"] by simp
  with Some show ?thesis
    using assms
    by (simp add: proposal_vote_body_def queryAccount_resolved store_first_ok del: set_map)
qed

lemma grant_vote_body_resolved:
  assumes "cli c \<noteq> None" "account_at w (clock c) (ValidatorAddress v) = Some acc"
    "\<not> store_fault w (clock c + 1)" "\<not> store_fault w (clock c + 2)"
  shows "\<exists>c'. grant_vote_body w vh g v c = (Ok (), c') \<and> cli c' = cli c \<and>
      (vh, Account.Index acc) \<in> set (map grant_vote_key (grant_votes (db c'))) \<and>
      ((vh, Account.Index acc) \<in> set (map grant_vote_key (grant_votes (db c)))
         \<longrightarrow> db c' = db c)"
proof (cases "First_grant_vote vh (Account.Index acc) (db c)")
  case None
  then have "(vh, Account.Index acc) \<notin> set (map grant_vote_key (grant_votes (db c)))"
    using First_grant_vote_None[THEN iffD1] by blast
  with None show ?thesis
    using assms
    by (simp add: grant_vote_body_def queryAccount_resolved store_first_ok store_write_ok
        Create_grant_vote_keys grant_vote_key_def del: set_map)
next
  case (Some r)
  then have "(vh, Account.Index acc) \<in> set (map grant_vote_key (grant_votes (db c)))"
    using First_grant_vote_None[of vh "Account.Index acc" "db c"] by simp
  with Some show ?thesis
    using assms
    by (simp add: grant_vote_body_def queryAccount_resolved store_first_ok del: set_map)
qed

lemma for_Signatures_mono:
  assumes "\<And>v c r c'. body v c = (r, c') \<Longrightarrow> P (db c) \<Longrightarrow> P (db c')"
  shows "for_Signatures body vs c = (r, c') \<Longrightarrow> P (db c) \<Longrightarrow> P (db c')"
  using for_Signatures_rel[where R="\<lambda>a b. P (db a) \<longrightarrow> P (db b)" and body=body and vs=vs and c=c and r=r and c'=c']
    assms by blast

text \<open>A loop whose every pass succeeds and records its signer.\<close>

lemma for_Signatures_all_ok:
  fixes has :: "store \<Rightarrow> CommitSig \<Rightarrow> bool"
  assumes step: "\<And>v c. v \<in> set vs \<Longrightarrow> cli c \<noteq> None \<Longrightarrow>
      \<exists>c'. body v c = (Ok (), c') \<and> cli c' = cli c \<and> has (db c') v \<and> (has (db c) v \<longrightarrow> db c' = db c)"
    and mono: "\<And>v c r c' u. body v c = (r, c') \<Longrightarrow> has (db c) u \<Longrightarrow> has (db c') u"
    and "cli c \<noteq> None"
  shows "\<exists>c'. for_Signatures body vs c = (Ok (), c') \<and> cli c' = cli c \<and>
      (\<forall>v \<in> set vs. has (db c') v) \<and> ((\<forall>v \<in> set vs. has (db c) v) \<longrightarrow> db c' = db c)"
  using step assms(3)
proof (induction vs arbitrary: c)
  case Nil
  then show ?case by simp
next
  case (Cons v vs)
  from Cons.prems(1)[of v c] Cons.prems(2)
  obtain c1 where b: "body v c = (Ok (), c1)" and c1: "cli c1 = cli c" and h1: "has (db c1) v"
    and s1: "has (db c) v \<longrightarrow> db c1 = db c"
    by auto
  have "\<exists>c'. for_Signatures body vs c1 = (Ok (), c') \<and> cli c' = cli c1 \<and>
      (\<forall>v \<in> set vs. has (db c') v) \<and> ((\<forall>v \<in> set vs. has (db c1) v) \<longrightarrow> db c' = db c1)"
    using Cons.prems c1 by (intro Cons.IH) auto
  then obtain c' where l: "for_Signatures body vs c1 = (Ok (), c')" and c': "cli c' = cli c1"
    and h': "\<forall>v \<in> set vs. has (db c') v"
    and s': "(\<forall>v \<in> set vs. has (db c1) v) \<longrightarrow> db c' = db c1"
    by auto
  have m: "has (db c1) u \<Longrightarrow> has (db c') u" for u
    by (rule for_Signatures_mono[where P="\<lambda>s. has s u" and body=body, OF _ l]) (rule mono)
  have "for_Signatures body (v # vs) c = (Ok (), c')" using b l by simp
  moreover have "cli c' = cli c" using c' c1 by simp
  moreover have "\<forall>u \<in> set (v # vs). has (db c') u" using h' h1 m by auto
  moreover have "(\<forall>u \<in> set (v # vs). has (db c) u) \<longrightarrow> db c' = db c"
    using s1 s' by auto
  ultimately show ?case by blast
qed

lemma pending_at_cong:
  "proposals s = proposals s' \<Longrightarrow> grants s = grants s' \<Longrightarrow> pending_at H s = pending_at H s'"
  by (simp add: pending_at_def First_new_proposal_def First_settle_proposal_def First_grant_def)

lemma proposal_vote_body_has:
  assumes "proposal_vote_body w vh pid v c = (r, c')"
    and "k \<in> set (map proposal_vote_key (proposal_votes (db c)))"
  shows "k \<in> set (map proposal_vote_key (proposal_votes (db c')))"
  using proposal_vote_body_cases[OF assms(1)] assms(2)
  by (auto simp: Create_proposal_vote_keys simp del: set_map)

lemma grant_vote_body_has:
  assumes "grant_vote_body w vh g v c = (r, c')"
    and "k \<in> set (map grant_vote_key (grant_votes (db c)))"
  shows "k \<in> set (map grant_vote_key (grant_votes (db c')))"
  using grant_vote_body_cases[OF assms(1)] assms(2)
  by (auto simp: Create_grant_vote_keys simp del: set_map)

lemma proposal_loop_all_ok:
  fixes who :: "CommitSig \<Rightarrow> Account"
  assumes "\<forall>t. \<not> store_fault w t"
    and "\<forall>t. \<forall>v \<in> set vs. account_at w t (ValidatorAddress v) = Some (who v)"
    and "cli c \<noteq> None"
  shows "\<exists>c'. for_Signatures (proposal_vote_body w vh pid) vs c = (Ok (), c') \<and> cli c' = cli c \<and>
      (\<forall>v \<in> set vs. (vh, Account.Index (who v)) \<in> set (map proposal_vote_key (proposal_votes (db c')))) \<and>
      ((\<forall>v \<in> set vs. (vh, Account.Index (who v)) \<in> set (map proposal_vote_key (proposal_votes (db c))))
         \<longrightarrow> db c' = db c)"
  by (rule for_Signatures_all_ok[where has="\<lambda>s v. (vh, Account.Index (who v)) \<in> set (map proposal_vote_key (proposal_votes s))"])
     (use assms in \<open>auto intro!: proposal_vote_body_resolved elim: proposal_vote_body_has simp del: set_map\<close>)

lemma grant_loop_all_ok:
  fixes who :: "CommitSig \<Rightarrow> Account"
  assumes "\<forall>t. \<not> store_fault w t"
    and "\<forall>t. \<forall>v \<in> set vs. account_at w t (ValidatorAddress v) = Some (who v)"
    and "cli c \<noteq> None"
  shows "\<exists>c'. for_Signatures (grant_vote_body w vh g) vs c = (Ok (), c') \<and> cli c' = cli c \<and>
      (\<forall>v \<in> set vs. (vh, Account.Index (who v)) \<in> set (map grant_vote_key (grant_votes (db c')))) \<and>
      ((\<forall>v \<in> set vs. (vh, Account.Index (who v)) \<in> set (map grant_vote_key (grant_votes (db c))))
         \<longrightarrow> db c' = db c)"
  by (rule for_Signatures_all_ok[where has="\<lambda>s v. (vh, Account.Index (who v)) \<in> set (map grant_vote_key (grant_votes s))"])
     (use assms in \<open>auto intro!: grant_vote_body_resolved elim: grant_vote_body_has simp del: set_map\<close>)

lemma handleVote_all_ok:
  fixes who :: "CommitSig \<Rightarrow> Account"
  assumes cli: "cli c \<noteq> None"
    and commit: "rpc_Commit w (clock c) height = Some res"
    and quiet: "\<forall>t. \<not> store_fault w t"
    and res: "\<forall>t. \<forall>v \<in> set (Signatures res). account_at w t (ValidatorAddress v) = Some (who v)"
  shows "\<exists>c'. handleVote w height c = (Ok (), c') \<and> cli c' = cli c \<and>
      proposals (db c') = proposals (db c) \<and> grants (db c') = grants (db c) \<and>
      (pending_at (ResultCommit.Height res) (db c) \<noteq> Nothing \<longrightarrow>
         (\<forall>v \<in> set (Signatures res).
            has_vote (pending_at (ResultCommit.Height res) (db c)) (db c')
              (ResultCommit.Height res) (Account.Index (who v)))) \<and>
      (pending_at (ResultCommit.Height res) (db c) = Nothing \<or>
       (\<forall>v \<in> set (Signatures res).
            has_vote (pending_at (ResultCommit.Height res) (db c)) (db c)
              (ResultCommit.Height res) (Account.Index (who v)))
         \<longrightarrow> db c' = db c)"
proof -
  let ?vh = "ResultCommit.Height res"
  have hv: "handleVote w height c =
     (case pending_at ?vh (db c) of
        CreatedAt p \<Rightarrow>
          for_Signatures (proposal_vote_body w ?vh (Proposal.Id p)) (Signatures res) (tick (tick c))
      | SettledAt p \<Rightarrow>
          for_Signatures (proposal_vote_body w ?vh (Proposal.Id p)) (Signatures res) (tick (tick (tick c)))
      | GrantedAt g \<Rightarrow>
          for_Signatures (grant_vote_body w ?vh g) (Signatures res) (tick (tick (tick (tick c))))
      | Nothing \<Rightarrow> (Ok (), tick (tick (tick (tick c)))))"
    using cli commit quiet by (intro handleVote_pending) auto
  obtain r c' where run: "handleVote w height c = (r, c')" by (cases "handleVote w height c")
  have kp: "proposals (db c') = proposals (db c)"
    using handleVote_keeps[where col=proposals, OF _ _ run] by (simp add: keeps_def)
  have kg: "grants (db c') = grants (db c)"
    using handleVote_keeps[where col=grants, OF _ _ run] by (simp add: keeps_def)
  show ?thesis
  proof (cases "pending_at ?vh (db c)")
    case (CreatedAt p)
    from proposal_loop_all_ok[OF quiet res, of "tick (tick c)" ?vh "Proposal.Id p"] cli
    show ?thesis using hv run kp kg CreatedAt by (auto simp: has_vote_def simp del: set_map)
  next
    case (SettledAt p)
    from proposal_loop_all_ok[OF quiet res, of "tick (tick (tick c))" ?vh "Proposal.Id p"] cli
    show ?thesis using hv run kp kg SettledAt by (auto simp: has_vote_def simp del: set_map)
  next
    case (GrantedAt g)
    from grant_loop_all_ok[OF quiet res, of "tick (tick (tick (tick c)))" ?vh g] cli
    show ?thesis using hv run kp kg GrantedAt by (auto simp: has_vote_def simp del: set_map)
  next
    case Nothing
    then show ?thesis using hv by simp
  qed
qed

lemma handleVote_preserves:
  assumes pb: "\<And>vh pid v c r c'. proposal_vote_body w vh pid v c = (r, c') \<Longrightarrow> P (db c) \<Longrightarrow> P (db c')"
    and gb: "\<And>vh g v c r c'. grant_vote_body w vh g v c = (r, c') \<Longrightarrow> P (db c) \<Longrightarrow> P (db c')"
    and run: "handleVote w h c = (r, c')" and P: "P (db c)"
  shows "P (db c')"
proof -
  have ploop: "P (db c')"
    if "for_Signatures (proposal_vote_body w vh pid) vs c0 = (r, c')" "db c0 = db c" for vh pid vs c0
    using for_Signatures_mono[where P=P, OF _ that(1)] pb P that(2) by metis
  have gloop: "P (db c')"
    if "for_Signatures (grant_vote_body w vh g) vs c0 = (r, c')" "db c0 = db c" for vh g vs c0
    using for_Signatures_mono[where P=P, OF _ that(1)] gb P that(2) by metis
  show ?thesis
  proof (cases "cli c")
    case None
    with run P show ?thesis by (simp add: handleVote_def)
  next
    case (Some x)
    show ?thesis
    proof (cases "rpc_Commit w (clock c) h")
      case None
      with Some run P show ?thesis
        by (auto simp: handleVote_def split: prod.splits bool.splits dest!: reconnectD)
    next
      case Some2: (Some res)
      have "reconcile w res (tick c) = (r, c')" using run Some Some2 by (simp add: handleVote_def)
      from reconcile_cases[OF this] show ?thesis
        using P by (elim disjE exE conjE) (auto intro: ploop gloop)
    qed
  qed
qed

lemma handleVote_distinct:
  assumes "handleVote w h c = (r, c')"
  shows "(distinct (map proposal_vote_key (proposal_votes (db c))) \<longrightarrow>
         distinct (map proposal_vote_key (proposal_votes (db c')))) \<and>
      (distinct (map grant_vote_key (grant_votes (db c))) \<longrightarrow>
         distinct (map grant_vote_key (grant_votes (db c'))))"
proof (intro conjI impI)
  assume "distinct (map proposal_vote_key (proposal_votes (db c)))"
  then show "distinct (map proposal_vote_key (proposal_votes (db c')))"
    by (rule handleVote_preserves[where P="\<lambda>s. distinct (map proposal_vote_key (proposal_votes s))", OF _ _ assms, rotated 2])
       (auto dest: proposal_vote_body_distinct grant_vote_body_other)
next
  assume "distinct (map grant_vote_key (grant_votes (db c)))"
  then show "distinct (map grant_vote_key (grant_votes (db c')))"
    by (rule handleVote_preserves[where P="\<lambda>s. distinct (map grant_vote_key (grant_votes s))", OF _ _ assms, rotated 2])
       (auto dest: grant_vote_body_distinct proposal_vote_body_other)
qed

lemma queryAccount_up:
  assumes up: "\<forall>t dat. rpc_ABCIQuery w t ''/accounts/'' dat \<noteq> None"
    and run: "queryAccount w i a c = (r, c')"
  shows "cli c' = cli c \<and> (cli c \<noteq> None \<longrightarrow> r \<noteq> Panic)"
proof (cases "query_key i a")
  case (Inl e)
  with run show ?thesis by (auto simp: queryAccount_def)
next
  case (Inr dat)
  from up obtain res where "rpc_ABCIQuery w (clock c) ''/accounts/'' dat = Some res"
    by (metis option.exhaust)
  with run Inr show ?thesis
    by (auto simp: queryAccount_def split: option.splits if_splits)
qed

lemma proposal_vote_body_up:
  assumes up: "\<forall>t dat. rpc_ABCIQuery w t ''/accounts/'' dat \<noteq> None"
    and run: "proposal_vote_body w vh pid v c = (r, c')"
  shows "cli c' = cli c \<and> (cli c \<noteq> None \<longrightarrow> r \<noteq> Panic)"
proof -
  obtain qa c1 where qa: "queryAccount w 0 (HexBytes_String (ValidatorAddress v)) c = (qa, c1)"
    by (cases "queryAccount w 0 (HexBytes_String (ValidatorAddress v)) c")
  note q = queryAccount_up[OF up qa]
  show ?thesis
    using run qa q
    by (auto simp: proposal_vote_body_def Let_def store_write_def store_first_def
        split: result.splits option.splits if_splits)
qed

lemma grant_vote_body_up:
  assumes up: "\<forall>t dat. rpc_ABCIQuery w t ''/accounts/'' dat \<noteq> None"
    and run: "grant_vote_body w vh g v c = (r, c')"
  shows "cli c' = cli c \<and> (cli c \<noteq> None \<longrightarrow> r \<noteq> Panic)"
proof -
  obtain qa c1 where qa: "queryAccount w 0 (HexBytes_String (ValidatorAddress v)) c = (qa, c1)"
    by (cases "queryAccount w 0 (HexBytes_String (ValidatorAddress v)) c")
  note q = queryAccount_up[OF up qa]
  show ?thesis
    using run qa q
    by (auto simp: grant_vote_body_def Let_def store_write_def store_first_def
        split: result.splits option.splits if_splits)
qed

lemma proposal_vote_body_refused:
  assumes "cli c \<noteq> None" "account_at w (clock c) (ValidatorAddress v) = None"
    "\<forall>t dat. rpc_ABCIQuery w t ''/accounts/'' dat \<noteq> None"
  shows "\<exists>e. proposal_vote_body w vh pid v c = (Err e, tick c)"
  using queryAccount_refused[OF assms(1,2)] assms(3)
  by (auto simp: proposal_vote_body_def)

lemma grant_vote_body_refused:
  assumes "cli c \<noteq> None" "account_at w (clock c) (ValidatorAddress v) = None"
    "\<forall>t dat. rpc_ABCIQuery w t ''/accounts/'' dat \<noteq> None"
  shows "\<exists>e. grant_vote_body w vh g v c = (Err e, tick c)"
  using queryAccount_refused[OF assms(1,2)] assms(3)
  by (auto simp: grant_vote_body_def)

lemma for_Signatures_fails:
  assumes bad: "v \<in> set vs" "\<And>c. cli c \<noteq> None \<Longrightarrow> \<exists>e c'. body v c = (Err e, c')"
    and safe: "\<And>u c r c'. body u c = (r, c') \<Longrightarrow> cli c' = cli c \<and> (cli c \<noteq> None \<longrightarrow> r \<noteq> Panic)"
    and "cli c \<noteq> None"
  shows "\<exists>e c'. for_Signatures body vs c = (Err e, c') \<and> cli c' = cli c"
  using bad(1) assms(4)
proof (induction vs arbitrary: c)
  case Nil
  then show ?case by simp
next
  case (Cons u us)
  obtain r c1 where b: "body u c = (r, c1)" by (cases "body u c")
  have s: "cli c1 = cli c" "r \<noteq> Panic" using safe[OF b] Cons.prems(2) by auto
  show ?case
  proof (cases r)
    case Panic
    with s show ?thesis by simp
  next
    case (Err e)
    with b s show ?thesis by simp
  next
    case (Ok x)
    have "u \<noteq> v"
    proof
      assume "u = v"
      with bad(2)[OF Cons.prems(2)] b Ok show False by auto
    qed
    then have "v \<in> set us" using Cons.prems(1) by simp
    from Cons.IH[OF this, of c1] s Cons.prems(2)
    show ?thesis using b Ok by auto
  qed
qed

lemma reconcile_pending_cases:
  assumes "reconcile w res c = (r, c')" "pending_at (ResultCommit.Height res) (db c) \<noteq> Nothing"
  shows "(r = Err StoreError \<and> cli c' = cli c)
    \<or> (\<exists>pid c0. cli c0 = cli c \<and> for_Signatures (proposal_vote_body w (ResultCommit.Height res) pid) (Signatures res) c0 = (r, c'))
    \<or> (\<exists>g c0. cli c0 = cli c \<and> for_Signatures (grant_vote_body w (ResultCommit.Height res) g) (Signatures res) c0 = (r, c'))"
proof -
  have t: "cli (tick x) = cli x" for x by simp
  show ?thesis
    using assms unfolding reconcile_def pending_at_def Let_def store_first_def
    by (auto split: if_splits option.splits simp del: for_Signatures.simps
        intro: exI[of _ "tick c"] exI[of _ "tick (tick c)"] exI[of _ "tick (tick (tick c))"])
qed

lemma handleVote_fails:
  assumes cli: "cli c \<noteq> None"
    and commit: "rpc_Commit w (clock c) height = Some res"
    and up: "\<forall>t dat. rpc_ABCIQuery w t ''/accounts/'' dat \<noteq> None"
    and pend: "pending_at (ResultCommit.Height res) (db c) \<noteq> Nothing"
    and bad: "v \<in> set (Signatures res)" "\<forall>t. account_at w t (ValidatorAddress v) = None"
  shows "\<exists>e c1. handleVote w height c = (Err e, c1) \<and> cli c1 = cli c"
proof -
  obtain r c1 where run: "reconcile w res (tick c) = (r, c1)"
    by (cases "reconcile w res (tick c)")
  have hv: "handleVote w height c = (r, c1)"
    using cli commit run by (auto simp: handleVote_def)
  have pl: "\<exists>e c'. for_Signatures (proposal_vote_body w vh pid) (Signatures res) c0 = (Err e, c') \<and> cli c' = cli c0"
    if "cli c0 \<noteq> None" for vh pid c0
  proof (rule for_Signatures_fails[OF bad(1) _ _ that])
    fix c2 :: ChainIndexer assume "cli c2 \<noteq> None"
    from proposal_vote_body_refused[OF this bad(2)[rule_format] up]
    show "\<exists>e c'. proposal_vote_body w vh pid v c2 = (Err e, c')" by blast
  qed (rule proposal_vote_body_up[OF up])
  have gl: "\<exists>e c'. for_Signatures (grant_vote_body w vh g) (Signatures res) c0 = (Err e, c') \<and> cli c' = cli c0"
    if "cli c0 \<noteq> None" for vh g c0
  proof (rule for_Signatures_fails[OF bad(1) _ _ that])
    fix c2 :: ChainIndexer assume "cli c2 \<noteq> None"
    from grant_vote_body_refused[OF this bad(2)[rule_format] up]
    show "\<exists>e c'. grant_vote_body w vh g v c2 = (Err e, c')" by blast
  qed (rule grant_vote_body_up[OF up])
  have pend': "pending_at (ResultCommit.Height res) (db (tick c)) \<noteq> Nothing"
    using pend by simp
  from reconcile_pending_cases[OF run pend']
  have "\<exists>e. r = Err e \<and> cli c1 = cli c"
  proof (elim disjE exE conjE)
    fix pid c0
    assume a: "cli c0 = cli (tick c)"
      "for_Signatures (proposal_vote_body w (ResultCommit.Height res) pid) (Signatures res) c0 = (r, c1)"
    with pl[of c0 "ResultCommit.Height res" pid] cli show ?thesis by auto
  next
    fix g c0
    assume a: "cli c0 = cli (tick c)"
      "for_Signatures (grant_vote_body w (ResultCommit.Height res) g) (Signatures res) c0 = (r, c1)"
    with gl[of c0 "ResultCommit.Height res" g] cli show ?thesis by auto
  qed auto
  with hv show ?thesis by auto
qed

lemma for_Signatures_appended_pv:
  assumes "for_Signatures (proposal_vote_body w vh pid) vs c = (r, c')"
  shows "appended (\<lambda>r. ProposalVote.Proposal r = pid \<and> ProposalVote.Height r = vh)
     (proposal_votes (db c)) (proposal_votes (db c')) \<and> grant_votes (db c') = grant_votes (db c)"
proof -
  have "appended (\<lambda>r. ProposalVote.Proposal r = pid \<and> ProposalVote.Height r = vh)
     (proposal_votes (db c)) (proposal_votes (db c'))"
    by (rule for_Signatures_rel[where body="proposal_vote_body w vh pid", OF _ _ _ assms])
       (auto intro: proposal_vote_body_appended appended_refl appended_trans)
  moreover have "keeps grant_votes c c'"
    by (rule for_Signatures_keeps[OF _ assms]) (erule proposal_vote_body_keeps[rotated], simp)
  ultimately show ?thesis by (simp add: keeps_def)
qed

lemma for_Signatures_appended_gv:
  assumes "for_Signatures (grant_vote_body w vh g) vs c = (r, c')"
  shows "appended (\<lambda>r. GrantVote.AccountIndex r = Grant.Id g \<and> GrantVote.Height r = vh)
     (grant_votes (db c)) (grant_votes (db c')) \<and> proposal_votes (db c') = proposal_votes (db c)"
proof -
  have "appended (\<lambda>r. GrantVote.AccountIndex r = Grant.Id g \<and> GrantVote.Height r = vh)
     (grant_votes (db c)) (grant_votes (db c'))"
    by (rule for_Signatures_rel[where body="grant_vote_body w vh g", OF _ _ _ assms])
       (auto intro: grant_vote_body_appended appended_refl appended_trans)
  moreover have "keeps proposal_votes c c'"
    by (rule for_Signatures_keeps[OF _ assms]) (erule grant_vote_body_keeps[rotated], simp)
  ultimately show ?thesis by (simp add: keeps_def)
qed

lemma pending_at_sound:
  "case pending_at H s of
     CreatedAt p \<Rightarrow> p \<in> set (proposals s) \<and> Proposal.NewHeight p = H \<and> Proposal.Id p \<noteq> 0
   | SettledAt p \<Rightarrow> p \<in> set (proposals s) \<and> Proposal.SettleHeight p = H \<and> Proposal.Id p \<noteq> 0
   | GrantedAt g \<Rightarrow> g \<in> set (grants s) \<and> Grant.Height g = H \<and> Grant.Id g \<noteq> 0
   | Nothing \<Rightarrow> True"
  by (auto simp: pending_at_def Let_def First_new_proposal_def First_settle_proposal_def
      First_grant_def split: option.splits dest!: first_where_Some)

section \<open>The claims\<close>

text \<open>
  Claim C1. One pass of the sync loop for the height \<open>H\<close> held in memory. If the pass
  advances, the block results of \<open>H\<close> were fetched, every event of them was dispatched,
  \<^verbatim>\<open>handleVote\<close> for \<open>H\<close> then returned success on the state so reached, the write
  of the \<^verbatim>\<open>Height\<close> row did not fail, and only then the persisted height became \<open>H\<close>
  and the in-memory height \<open>H + 1\<close>. In every other outcome the \<^verbatim>\<open>Height\<close> table,
  the persisted height and the in-memory height are as before; and when \<^verbatim>\<open>handleVote\<close>
  does not return success, or the write of the new height fails, the pass does not
  advance.
\<close>

theorem Start_height_advance:
  assumes "Start_height w c = (it, c')"
  shows "(it = Advanced \<longrightarrow>
           (\<exists>TxsResults c2.
              rpc_BlockResults w (clock c) (ChainIndexer.Height c) = Some TxsResults \<and>
              handleVote w (ChainIndexer.Height c) (dispatch w TxsResults (tick c)) = (Ok (), c2) \<and>
              \<not> store_fault w (clock c2) \<and>
              db c' = Save_height \<lparr>Height.Id = 1, Height.Height = ChainIndexer.Height c\<rparr> (db c2) \<and>
              persisted (db c') = ChainIndexer.Height c \<and>
              ChainIndexer.Height c' = ChainIndexer.Height c + 1)) \<and>
         (it \<noteq> Advanced \<longrightarrow>
            heights (db c') = heights (db c) \<and> persisted (db c') = persisted (db c) \<and>
            ChainIndexer.Height c' = ChainIndexer.Height c) \<and>
         (\<forall>TxsResults r c2.
            cli c \<noteq> None \<and>
            rpc_BlockResults w (clock c) (ChainIndexer.Height c) = Some TxsResults \<and>
            handleVote w (ChainIndexer.Height c) (dispatch w TxsResults (tick c)) = (r, c2) \<and>
            (r \<noteq> Ok () \<or> store_fault w (clock c2)) \<longrightarrow> it \<noteq> Advanced)"
proof (cases "cli c")
  case None
  with assms show ?thesis by (simp add: Start_height_shape)
next
  case (Some x)
  show ?thesis
  proof (cases "rpc_BlockResults w (clock c) (ChainIndexer.Height c)")
    case None
    with Some assms show ?thesis
      by (auto simp: Start_height_shape persisted_def First_height_def
          split: prod.splits bool.splits dest!: reconnectD)
  next
    case Some2: (Some txs)
    obtain r c2 where hv: "handleVote w (ChainIndexer.Height c) (dispatch w txs (tick c)) = (r, c2)"
      by (cases "handleVote w (ChainIndexer.Height c) (dispatch w txs (tick c))")
    have fr: "heights (db c2) = heights (db c)" "ChainIndexer.Height c2 = ChainIndexer.Height c"
      using handleVote_progress[OF hv] by (simp_all add: dispatch_frame)
    have pe: "persisted (db c2) = persisted (db c)"
      using fr(1) by (rule persisted_cong)
    show ?thesis
      using assms Some Some2 hv fr pe
      by (cases r) (auto simp: Start_height_shape persisted_Save_height split: if_splits)
  qed
qed

theorem Start_height_advance_witness:
  "fst (Start_height scenario (indexer_at 100 (store_at 99))) = Advanced \<and>
   persisted (db (snd (Start_height scenario (indexer_at 100 (store_at 99))))) = 100 \<and>
   ChainIndexer.Height (snd (Start_height scenario (indexer_at 100 (store_at 99)))) = 101 \<and>
   fst (Start_height (faulty 13) (indexer_at 100 (store_at 99))) = Retried \<and>
   persisted (db (snd (Start_height (faulty 13) (indexer_at 100 (store_at 99))))) = 99 \<and>
   ChainIndexer.Height (snd (Start_height (faulty 13) (indexer_at 100 (store_at 99)))) = 100"
proof -
  have adv: "fst (Start_height scenario (indexer_at 100 (store_at 99))) = Advanced"
    by code_simp
  have ret: "fst (Start_height (faulty 13) (indexer_at 100 (store_at 99))) = Retried"
    by code_simp
  have h: "ChainIndexer.Height (indexer_at 100 (store_at 99)) = 100"
    by (simp add: indexer_at_def)
  have p: "persisted (db (indexer_at 100 (store_at 99))) = 99"
    by code_simp
  from Start_height_advance[OF surjective_pairing, of scenario "indexer_at 100 (store_at 99)"] adv h
  have 1: "persisted (db (snd (Start_height scenario (indexer_at 100 (store_at 99))))) = 100 \<and>
    ChainIndexer.Height (snd (Start_height scenario (indexer_at 100 (store_at 99)))) = 101"
    by auto
  from Start_height_advance[OF surjective_pairing, of "faulty 13" "indexer_at 100 (store_at 99)"] ret h p
  have 2: "persisted (db (snd (Start_height (faulty 13) (indexer_at 100 (store_at 99))))) = 99 \<and>
    ChainIndexer.Height (snd (Start_height (faulty 13) (indexer_at 100 (store_at 99)))) = 100"
    by auto
  from adv ret 1 2 show ?thesis by simp
qed

text \<open>
  Claim C2. With a client, the same commit at all times, a record store that does not
  fail and signers that all resolve, each always to the same account, \<^verbatim>\<open>handleVote\<close>
  for a height returns success, a second run on the resulting state returns success too
  and leaves the whole store, so both vote tables, as the first run left it. A vote row is
  inserted only when no row of the table has its (height, voter index) pair, so a table
  without duplicate pairs stays without duplicate pairs.
\<close>

theorem handleVote_idempotent:
  fixes who :: "CommitSig \<Rightarrow> Account"
  assumes cli: "cli c \<noteq> None"
    and commit: "\<forall>t. rpc_Commit w t height = Some res"
    and quiet: "\<forall>t. \<not> store_fault w t"
    and res: "\<forall>t. \<forall>v \<in> set (Signatures res). account_at w t (ValidatorAddress v) = Some (who v)"
  shows "\<exists>c1 c2. handleVote w height c = (Ok (), c1) \<and> handleVote w height c1 = (Ok (), c2) \<and>
      db c2 = db c1 \<and>
      (distinct (map proposal_vote_key (proposal_votes (db c))) \<longrightarrow>
         distinct (map proposal_vote_key (proposal_votes (db c1)))) \<and>
      (distinct (map grant_vote_key (grant_votes (db c))) \<longrightarrow>
         distinct (map grant_vote_key (grant_votes (db c1))))"
proof -
  let ?vh = "ResultCommit.Height res"
  from handleVote_all_ok[OF cli commit[rule_format] quiet res]
  obtain c1 where r1: "handleVote w height c = (Ok (), c1)" and cli1: "cli c1 = cli c"
    and p1: "proposals (db c1) = proposals (db c)" and g1: "grants (db c1) = grants (db c)"
    and h1: "pending_at ?vh (db c) \<noteq> Nothing \<longrightarrow>
         (\<forall>v \<in> set (Signatures res). has_vote (pending_at ?vh (db c)) (db c1) ?vh (Account.Index (who v)))"
    by blast
  have pend: "pending_at ?vh (db c1) = pending_at ?vh (db c)"
    using p1 g1 by (rule pending_at_cong)
  from handleVote_all_ok[OF _ commit[rule_format] quiet res, of c1] cli cli1
  obtain c2 where r2: "handleVote w height c1 = (Ok (), c2)"
    and s2: "pending_at ?vh (db c1) = Nothing \<or>
       (\<forall>v \<in> set (Signatures res). has_vote (pending_at ?vh (db c1)) (db c1) ?vh (Account.Index (who v)))
         \<longrightarrow> db c2 = db c1"
    by auto
  have same: "db c2 = db c1" using s2 h1 pend by auto
  show ?thesis using r1 r2 same handleVote_distinct[OF r1] by blast
qed

theorem handleVote_idempotent_witness:
  "\<exists>c1 c2. handleVote scenario 100 (indexer_at 100 store_7) = (Ok (), c1) \<and>
     handleVote scenario 100 c1 = (Ok (), c2) \<and> db c2 = db c1 \<and>
     distinct (map proposal_vote_key (proposal_votes (db c1))) \<and>
     distinct (map grant_vote_key (grant_votes (db c1)))"
proof -
  have 1: "cli (indexer_at 100 store_7) \<noteq> None"
    by (simp add: indexer_at_def)
  have 2: "\<forall>t. rpc_Commit scenario t 100 =
      Some \<lparr>ResultCommit.Height = 100, Signatures = [sig_A1, sig_B2, sig_C3]\<rparr>"
    by (simp add: scenario_def)
  have 3: "\<forall>t. \<not> store_fault scenario t"
    by (simp add: scenario_def)
  have 4: "\<forall>t. \<forall>v \<in> set (Signatures \<lparr>ResultCommit.Height = 100, Signatures = [sig_A1, sig_B2, sig_C3]\<rparr>).
      account_at scenario t (ValidatorAddress v) = Some (signer v)"
    by (simp add: scenario_def account_at_def account_of_def signer_def sig_A1_def sig_B2_def sig_C3_def)
  have 5: "distinct (map proposal_vote_key (proposal_votes (db (indexer_at 100 store_7))))"
    "distinct (map grant_vote_key (grant_votes (db (indexer_at 100 store_7))))"
    by (simp_all add: indexer_at_def store_7_def store_at_def empty_store_def)
  from handleVote_idempotent[OF 1 2 3 4] 5 show ?thesis by blast
qed

text \<open>
  Claim C3. With a client, the commit fetched and the three lookups not failing,
  \<^verbatim>\<open>handleVote\<close> is the loop over the signatures for the first pending record of the
  height in the order: proposal created at the height, proposal settled at it, grant at
  it; and it returns success at once when there is none. For a proposal the grant votes
  are untouched and the rows added carry that proposal and the height; for a grant the
  proposal votes are untouched and the rows added carry that grant and the height; with
  no pending record the store is unchanged.
\<close>

theorem handleVote_priority:
  assumes "cli c \<noteq> None" "rpc_Commit w (clock c) height = Some res"
    "\<not> store_fault w (clock c + 1)" "\<not> store_fault w (clock c + 2)"
    "\<not> store_fault w (clock c + 3)"
  shows "handleVote w height c =
     (case pending_at (ResultCommit.Height res) (db c) of
        CreatedAt p \<Rightarrow>
          for_Signatures (proposal_vote_body w (ResultCommit.Height res) (Proposal.Id p))
            (Signatures res) (tick (tick c))
      | SettledAt p \<Rightarrow>
          for_Signatures (proposal_vote_body w (ResultCommit.Height res) (Proposal.Id p))
            (Signatures res) (tick (tick (tick c)))
      | GrantedAt g \<Rightarrow>
          for_Signatures (grant_vote_body w (ResultCommit.Height res) g)
            (Signatures res) (tick (tick (tick (tick c))))
      | Nothing \<Rightarrow> (Ok (), tick (tick (tick (tick c))))) \<and>
     (case pending_at (ResultCommit.Height res) (db c) of
        CreatedAt p \<Rightarrow>
          p \<in> set (proposals (db c)) \<and> Proposal.NewHeight p = ResultCommit.Height res \<and>
          appended (\<lambda>r. ProposalVote.Proposal r = Proposal.Id p \<and>
                        ProposalVote.Height r = ResultCommit.Height res)
            (proposal_votes (db c)) (proposal_votes (db (snd (handleVote w height c)))) \<and>
          grant_votes (db (snd (handleVote w height c))) = grant_votes (db c)
      | SettledAt p \<Rightarrow>
          p \<in> set (proposals (db c)) \<and> Proposal.SettleHeight p = ResultCommit.Height res \<and>
          appended (\<lambda>r. ProposalVote.Proposal r = Proposal.Id p \<and>
                        ProposalVote.Height r = ResultCommit.Height res)
            (proposal_votes (db c)) (proposal_votes (db (snd (handleVote w height c)))) \<and>
          grant_votes (db (snd (handleVote w height c))) = grant_votes (db c)
      | GrantedAt g \<Rightarrow>
          g \<in> set (grants (db c)) \<and> Grant.Height g = ResultCommit.Height res \<and>
          appended (\<lambda>r. GrantVote.AccountIndex r = Grant.Id g \<and>
                        GrantVote.Height r = ResultCommit.Height res)
            (grant_votes (db c)) (grant_votes (db (snd (handleVote w height c)))) \<and>
          proposal_votes (db (snd (handleVote w height c))) = proposal_votes (db c)
      | Nothing \<Rightarrow>
          fst (handleVote w height c) = Ok () \<and> db (snd (handleVote w height c)) = db c)"
proof -
  note hv = handleVote_pending[OF assms]
  note snd' = pending_at_sound[where H="ResultCommit.Height res" and s="db c"]
  show ?thesis
  proof (cases "pending_at (ResultCommit.Height res) (db c)")
    case (CreatedAt p)
    then show ?thesis
      using hv snd' for_Signatures_appended_pv[OF surjective_pairing,
          where w=w and vh="ResultCommit.Height res" and pid="Proposal.Id p"
            and vs="Signatures res" and c="tick (tick c)"]
      by simp
  next
    case (SettledAt p)
    then show ?thesis
      using hv snd' for_Signatures_appended_pv[OF surjective_pairing,
          where w=w and vh="ResultCommit.Height res" and pid="Proposal.Id p"
            and vs="Signatures res" and c="tick (tick (tick c))"]
      by simp
  next
    case (GrantedAt g)
    then show ?thesis
      using hv snd' for_Signatures_appended_gv[OF surjective_pairing,
          where w=w and vh="ResultCommit.Height res" and g=g
            and vs="Signatures res" and c="tick (tick (tick (tick c)))"]
      by simp
  next
    case Nothing
    then show ?thesis using hv by simp
  qed
qed

theorem handleVote_priority_witness:
  "pending_at 100 (db (indexer_at 100 store_7)) = CreatedAt proposal_7 \<and>
   handleVote scenario 100 (indexer_at 100 store_7) =
     for_Signatures (proposal_vote_body scenario 100 7) [sig_A1, sig_B2, sig_C3]
       (tick (tick (indexer_at 100 store_7))) \<and>
   grant_votes (db (snd (handleVote scenario 100 (indexer_at 100 store_7)))) = [] \<and>
   pending_at 150 (db (indexer_at 150 store_7)) = SettledAt proposal_7 \<and>
   handleVote scenario 150 (indexer_at 150 store_7) =
     for_Signatures (proposal_vote_body scenario 150 7) [sig_A1, sig_B2, sig_C3]
       (tick (tick (tick (indexer_at 150 store_7)))) \<and>
   pending_at 120 (db (indexer_at 120 store_7)) = Nothing \<and>
   handleVote scenario 120 (indexer_at 120 store_7) =
     (Ok (), tick (tick (tick (tick (indexer_at 120 store_7)))))"
proof -
  have cli: "cli (indexer_at h store_7) \<noteq> None" for h
    by (simp add: indexer_at_def)
  have commit: "rpc_Commit scenario (clock (indexer_at h store_7)) h =
      Some \<lparr>ResultCommit.Height = h, Signatures = [sig_A1, sig_B2, sig_C3]\<rparr>" for h
    by (simp add: scenario_def)
  have q: "\<not> store_fault scenario t" for t
    by (simp add: scenario_def)
  have p1: "pending_at 100 (db (indexer_at 100 store_7)) = CreatedAt proposal_7"
    by code_simp
  have p2: "pending_at 150 (db (indexer_at 150 store_7)) = SettledAt proposal_7"
    by code_simp
  have p3: "pending_at 120 (db (indexer_at 120 store_7)) = Nothing"
    by code_simp
  have id7: "Proposal.Id proposal_7 = 7" by (simp add: proposal_7_def)
  have gv: "grant_votes (db (indexer_at 100 store_7)) = []"
    by (simp add: indexer_at_def store_7_def store_at_def empty_store_def)
  from handleVote_priority[OF cli commit q q q, of 100] p1 id7 gv
  have a: "handleVote scenario 100 (indexer_at 100 store_7) =
     for_Signatures (proposal_vote_body scenario 100 7) [sig_A1, sig_B2, sig_C3]
       (tick (tick (indexer_at 100 store_7))) \<and>
     grant_votes (db (snd (handleVote scenario 100 (indexer_at 100 store_7)))) = []"
    by (auto simp del: for_Signatures.simps)
  from handleVote_priority[OF cli commit q q q, of 150] p2 id7
  have b: "handleVote scenario 150 (indexer_at 150 store_7) =
     for_Signatures (proposal_vote_body scenario 150 7) [sig_A1, sig_B2, sig_C3]
       (tick (tick (tick (indexer_at 150 store_7))))"
    by (simp del: for_Signatures.simps)
  from handleVote_priority[OF cli commit q q q, of 120] p3
  have c: "handleVote scenario 120 (indexer_at 120 store_7) =
     (Ok (), tick (tick (tick (tick (indexer_at 120 store_7)))))"
    by simp
  from p1 p2 p3 a b c show ?thesis by (intro conjI) (elim conjE, assumption)+
qed

text \<open>
  Claim C10. When every record that the three lookups of \<^verbatim>\<open>handleVote\<close> find for
  the height has the primary key 0, the test \<^verbatim>\<open>Id != 0\<close> takes each of them for no
  record: \<^verbatim>\<open>handleVote\<close> returns success after the three lookups and the store is
  unchanged, so no vote row is inserted.
\<close>

theorem handleVote_zero_key:
  assumes "cli c \<noteq> None" "rpc_Commit w (clock c) height = Some res"
    "\<not> store_fault w (clock c + 1)" "\<not> store_fault w (clock c + 2)"
    "\<not> store_fault w (clock c + 3)"
    and "\<forall>p. First_new_proposal (ResultCommit.Height res) (db c) = Some p \<longrightarrow> Proposal.Id p = 0"
    and "\<forall>p. First_settle_proposal (ResultCommit.Height res) (db c) = Some p \<longrightarrow> Proposal.Id p = 0"
    and "\<forall>g. First_grant (ResultCommit.Height res) (db c) = Some g \<longrightarrow> Grant.Id g = 0"
  shows "handleVote w height c = (Ok (), tick (tick (tick (tick c)))) \<and>
     db (snd (handleVote w height c)) = db c"
proof -
  have "pending_at (ResultCommit.Height res) (db c) = Nothing"
    using assms(6-8) by (auto simp: pending_at_def Let_def split: option.splits)
  then show ?thesis using handleVote_pending[OF assms(1-5)] by simp
qed

theorem handleVote_zero_key_witness:
  "First_new_proposal 100 (db (indexer_at 100 store_0)) = Some proposal_0 \<and>
   Proposal.Id proposal_0 = 0 \<and>
   handleVote scenario 100 (indexer_at 100 store_0) =
     (Ok (), tick (tick (tick (tick (indexer_at 100 store_0))))) \<and>
   db (snd (handleVote scenario 100 (indexer_at 100 store_0))) = store_0"
proof -
  have cli: "cli (indexer_at 100 store_0) \<noteq> None"
    by (simp add: indexer_at_def)
  have commit: "rpc_Commit scenario (clock (indexer_at 100 store_0)) 100 =
      Some \<lparr>ResultCommit.Height = 100, Signatures = [sig_A1, sig_B2, sig_C3]\<rparr>"
    by (simp add: scenario_def)
  have q: "\<not> store_fault scenario t" for t
    by (simp add: scenario_def)
  have f1: "First_new_proposal 100 (db (indexer_at 100 store_0)) = Some proposal_0"
    by code_simp
  have f2: "First_settle_proposal 100 (db (indexer_at 100 store_0)) = None"
    by code_simp
  have f3: "First_grant 100 (db (indexer_at 100 store_0)) = None"
    by code_simp
  have z: "Proposal.Id proposal_0 = 0"
    by (simp add: proposal_0_def)
  have d: "db (indexer_at 100 store_0) = store_0"
    by (simp add: indexer_at_def)
  from handleVote_zero_key[OF cli commit q q q] f1 f2 f3 z d
  show ?thesis by simp
qed

end
